theory Spec2Isabelle
  imports Main "HOL-Library.Multiset"
begin

section \<open>Data model of \<^verbatim>\<open>pomace/models.py\<close>\<close>

text \<open>
  Exceptions of the source are values.  \<open>ElementDoesNotExist\<close>,
  \<open>ElementNotInteractableException\<close> and \<open>WebDriverException\<close> are the three
  exceptions the source names; \<open>ValueError\<close> is what \<^verbatim>\<open>Mode(...)\<close>, \<^verbatim>\<open>Verb(...)\<close>
  and \<^verbatim>\<open>list.remove\<close> raise; \<open>AttributeError\<close> is what \<^verbatim>\<open>getattr\<close> raises;
  \<open>OtherError\<close> stands for any other exception of a collaborator.
\<close>

datatype error =
    ElementDoesNotExist
  | ElementNotInteractableException
  | WebDriverException
  | ValueError
  | AttributeError
  | OtherError string

text \<open>
  A live element handle of the browser driver: only its visibility and its markup are
  read by the source.
\<close>

record element =
  visible :: bool
  outer_html :: string

text \<open>
  \<^verbatim>\<open>class Locator\<close>: four fields.  The field \<^verbatim>\<open>value\<close> is named \<open>value'\<close>
  here.  Python's \<^verbatim>\<open>int\<close> is \<open>int\<close>.
\<close>

record locator =
  mode :: string
  value' :: string
  index :: int
  uses :: int

text \<open>
  \<^verbatim>\<open>Locator(mode, value)\<close> with the defaults \<^verbatim>\<open>index=0, uses=0\<close>.
\<close>

definition Locator :: "string \<Rightarrow> string \<Rightarrow> locator" where
  "Locator m v = \<lparr>mode = m, value' = v, index = 0, uses = 0\<rparr>"

text \<open>
  \<^verbatim>\<open>Locator.__bool__\<close>: \<^verbatim>\<open>bool(self.mode and self.value)\<close>.
\<close>

definition locator_bool :: "locator \<Rightarrow> bool" where
  "locator_bool l = (mode l \<noteq> [] \<and> value' l \<noteq> [])"

text \<open>
  The class is declared \<^verbatim>\<open>@datafile(order=True)\<close> with \<^verbatim>\<open>compare=False\<close> on
  \<^verbatim>\<open>mode\<close>, \<^verbatim>\<open>value\<close> and \<^verbatim>\<open>index\<close>: the generated \<^verbatim>\<open>__eq__\<close> and
  \<^verbatim>\<open>__lt__\<close> compare the tuple \<^verbatim>\<open>(uses,)\<close> only.
\<close>

definition locator_eq :: "locator \<Rightarrow> locator \<Rightarrow> bool" where
  "locator_eq a b = (uses a = uses b)"

definition locator_lt :: "locator \<Rightarrow> locator \<Rightarrow> bool" where
  "locator_lt a b = (uses a < uses b)"

subsection \<open>\<^verbatim>\<open>Locator.score\<close>\<close>

text \<open>
  The method mutates \<^verbatim>\<open>self.uses\<close> and returns a flag; the model returns the flag
  and the updated locator.
\<close>

definition score :: "locator \<Rightarrow> int \<Rightarrow> bool \<times> locator" where
  "score l v =
     (let previous = uses l;
          l' = (if v > 0 then l\<lparr>uses := min 99 (max 1 (uses l + v))\<rparr>
                else l\<lparr>uses := max (- 1) (uses l + v)\<rparr>)
      in if uses l' = previous then (False, l') else (True, l'))"

subsection \<open>\<^verbatim>\<open>Locator.find\<close>\<close>

text \<open>
  \<^verbatim>\<open>elements[index]\<close> on the driver's element list: a Python list index (a negative
  index counts from the end), with \<^verbatim>\<open>ElementDoesNotExist\<close> raised out of range;
  \<open>None\<close> is that exception.
\<close>

definition getitem :: "'a list \<Rightarrow> int \<Rightarrow> 'a option" where
  "getitem xs i =
     (if 0 \<le> i \<and> i < int (length xs) then Some (xs ! nat i)
      else if i < 0 \<and> - int (length xs) \<le> i then Some (xs ! nat (int (length xs) + i))
      else None)"

text \<open>
  The document is what \<^verbatim>\<open>Mode(mode).finder(value)\<close> returns for every mode and
  value: the list of matching elements, or the exception raised (a \<^verbatim>\<open>ValueError\<close>
  for a mode outside the enumeration).  The enumeration is not part of the sources, so the
  document is a parameter.
\<close>

type_synonym document = "string \<Rightarrow> string \<Rightarrow> error + element list"

text \<open>
  The result is the exception that escapes, or the element found (if any) with the
  locator as the call leaves it.
\<close>

definition find :: "document \<Rightarrow> locator \<Rightarrow> error + (element option \<times> locator)" where
  "find doc l =
     (case doc (mode l) (value' l) of
        Inl e \<Rightarrow> Inl e
      | Inr elements \<Rightarrow>
          (let index0 = index l in
           case getitem elements index0 of
             None \<Rightarrow> Inr (None, l)
           | Some element0 \<Rightarrow>
               if index0 = 0 \<and> \<not> visible element0 then
                 (case getitem elements (index0 + 1) of
                    None \<Rightarrow> Inr (None, l)
                  | Some element1 \<Rightarrow> Inr (Some element1, l\<lparr>index := index0 + 1\<rparr>))
               else Inr (Some element0, l\<lparr>index := index0\<rparr>)))"

subsection \<open>\<^verbatim>\<open>class Action\<close>, \<^verbatim>\<open>class Locators\<close>, \<^verbatim>\<open>class Page\<close>\<close>

record action =
  verb :: string
  name :: string
  locators :: "locator list"

text \<open>
  \<^verbatim>\<open>class Locators\<close>, the two sides of a page's locator set.
\<close>

record locator_set =
  inclusions :: "locator list"
  exclusions :: "locator list"

text \<open>
  \<^verbatim>\<open>class Page\<close>.  Its field \<^verbatim>\<open>locators\<close> is named \<open>page_locators\<close> here (the
  action's field has the name already).
\<close>

record page =
  domain :: string
  path :: string
  variant :: string
  page_locators :: locator_set
  actions :: "action list"

text \<open>
  The generated \<^verbatim>\<open>__eq__\<close> of the dataclass \<^verbatim>\<open>Action\<close> compares the tuples of
  all three fields; two lists are equal when they have the same length and equal
  elements, and the elements are locators, compared by \<open>locator_eq\<close>.
\<close>

definition action_eq :: "action \<Rightarrow> action \<Rightarrow> bool" where
  "action_eq a b =
     (verb a = verb b \<and> name a = name b \<and> list_all2 locator_eq (locators a) (locators b))"

subsection \<open>Sorted candidates\<close>

text \<open>
  \<^verbatim>\<open>sorted(xs, reverse=True)\<close> compares with \<^verbatim>\<open>__lt__\<close> and is stable, also when
  reversed: elements that compare equal keep their order.  That is the stable sort by the
  negated score.
\<close>

definition sorted_reverse :: "locator list \<Rightarrow> locator list" where
  "sorted_reverse xs = sort_key (\<lambda>l. - uses l) xs"

definition sorted_locators :: "action \<Rightarrow> locator list" where
  "sorted_locators a = [x \<leftarrow> sorted_reverse (locators a). locator_bool x]"

definition sorted_inclusions :: "locator_set \<Rightarrow> locator list" where
  "sorted_inclusions s = [x \<leftarrow> sorted_reverse (inclusions s). locator_bool x]"

definition sorted_exclusions :: "locator_set \<Rightarrow> locator list" where
  "sorted_exclusions s = [x \<leftarrow> sorted_reverse (exclusions s). locator_bool x]"

text \<open>
  The sorted list holds references to the objects of the owned list, and the loops over
  it mutate those objects.  The loops of the model therefore run over the positions of
  the sorted candidates in the owned list and update the owned list in place.
  \<open>descending_order\<close> is the order of the positions, computed from the scores alone.
\<close>

definition descending_order :: "int list \<Rightarrow> nat list" where
  "descending_order us = sort_key (\<lambda>i. - (us ! i)) [0..<length us]"

definition sorted_indices :: "locator list \<Rightarrow> nat list" where
  "sorted_indices xs = [i \<leftarrow> descending_order (map uses xs). locator_bool (xs ! i)]"

text \<open>
  What the specification says of a candidate list \<open>cs\<close> drawn from the owned list:
  it holds exactly the owned locators with a mode and a value, in descending order of
  score, none of them empty, and which position comes where is decided by the scores
  alone.
\<close>

definition ranked_candidates :: "locator list \<Rightarrow> locator list \<Rightarrow> bool" where
  "ranked_candidates owned cs =
     (mset cs = filter_mset locator_bool (mset owned)
      \<and> sorted_wrt (\<lambda>x y. uses x \<ge> uses y) cs
      \<and> list_all (\<lambda>l. mode l \<noteq> [] \<and> value' l \<noteq> []) cs
      \<and> cs = map ((!) owned)
                 [i \<leftarrow> descending_order (map uses owned). locator_bool (owned ! i)])"

subsection \<open>The collaborators\<close>

text \<open>
  The state outside the objects of the model: the browser's current URL, its document,
  the persisted pages (\<^verbatim>\<open>Page.objects\<close>, one record per domain, path and variant) and
  the number of prompts the operator has answered.
\<close>

record world =
  browser_url :: string
  document :: document
  registry :: "page list"
  prompted :: nat

text \<open>
  A bound method of an element (\<^verbatim>\<open>element.click\<close>, \<^verbatim>\<open>element.fill\<close>, ...) or of a
  key chain: called with the arguments, it changes the world and may raise.
\<close>

type_synonym interaction = "string list \<Rightarrow> world \<Rightarrow> error option \<times> world"

text \<open>
  A member of the enumeration \<^verbatim>\<open>Verb\<close>: whether it is \<^verbatim>\<open>Verb.TYPE\<close>, and its
  property \<^verbatim>\<open>updates\<close>.
\<close>

record verb_info =
  is_type :: bool
  updates :: bool

text \<open>
  The modules \<^verbatim>\<open>enums\<close>, \<^verbatim>\<open>types\<close>, \<^verbatim>\<open>prompts\<close> and the browser driver are not
  part of the sources; what the code calls on them is a parameter:
  \<^item> \<open>Verb\<close>: \<^verbatim>\<open>Verb(self.verb)\<close>, raising for a string outside the enumeration;
  \<^item> \<open>post_action\<close>: \<^verbatim>\<open>self._verb.post_action(previous_url, wait)\<close>;
  \<^item> \<open>getattr_element\<close>: \<^verbatim>\<open>getattr(element, self.verb)\<close>;
  \<^item> \<open>send_keys\<close>: \<^verbatim>\<open>getattr(Keys, self.name.upper())\<close> and the
    \<^verbatim>\<open>perform\<close> of the key chain built from it;
  \<^item> \<open>mode_and_value\<close>: the operator's answer to the n-th call of
    \<^verbatim>\<open>prompts.mode_and_value()\<close>;
  \<^item> \<open>url_domain\<close>, \<open>url_path\<close>, \<open>url_fragment\<close>: the properties of \<^verbatim>\<open>URL(url)\<close>;
  \<^item> \<open>url_ne\<close>: \<^verbatim>\<open>URL(domain, path) != URL(url)\<close>;
  \<^item> \<open>visit\<close>: \<^verbatim>\<open>shared.browser.visit(url)\<close>.
\<close>

record env =
  Verb :: "string \<Rightarrow> error + verb_info"
  post_action :: "verb_info \<Rightarrow> string \<Rightarrow> string option \<Rightarrow> world \<Rightarrow> error + world"
  getattr_element :: "element \<Rightarrow> string \<Rightarrow> error + interaction"
  send_keys :: "string \<Rightarrow> error + interaction"
  mode_and_value :: "nat \<Rightarrow> string \<times> string"
  url_domain :: "string \<Rightarrow> string"
  url_path :: "string \<Rightarrow> string"
  url_fragment :: "string \<Rightarrow> string"
  url_ne :: "string \<Rightarrow> string \<Rightarrow> string \<Rightarrow> bool"
  visit :: "string \<Rightarrow> world \<Rightarrow> world"

subsection \<open>Persistence\<close>

text \<open>
  A page is stored at \<^verbatim>\<open>./sites/{domain}/{path}/{variant}.yml\<close>: two pages with the
  same three strings share a file.  \<^verbatim>\<open>self.datafile.save()\<close> overwrites the file or
  creates it.
\<close>

definition same_file :: "page \<Rightarrow> page \<Rightarrow> bool" where
  "same_file p q = (domain p = domain q \<and> path p = path q \<and> variant p = variant q)"

fun store :: "page \<Rightarrow> page list \<Rightarrow> page list" where
  "store p [] = [p]"
| "store p (q # qs) = (if same_file q p then p # qs else q # store p qs)"

definition save :: "page \<Rightarrow> world \<Rightarrow> world" where
  "save p w = w\<lparr>registry := store p (registry w)\<rparr>"

section \<open>Garbage collection\<close>

text \<open>
  \<^verbatim>\<open>xs.remove(x)\<close> removes the first element that compares equal to \<open>x\<close> and raises
  \<^verbatim>\<open>ValueError\<close> when there is none.
\<close>

fun list_remove :: "('a \<Rightarrow> 'a \<Rightarrow> bool) \<Rightarrow> 'a list \<Rightarrow> 'a \<Rightarrow> error + 'a list" where
  "list_remove eq [] x = Inl ValueError"
| "list_remove eq (y # ys) x =
     (if eq y x then Inr ys
      else (case list_remove eq ys x of Inl e \<Rightarrow> Inl e | Inr zs \<Rightarrow> Inr (y # zs)))"

text \<open>
  \<^verbatim>\<open>for x in unused: xs.remove(x)\<close>.
\<close>

fun remove_each :: "('a \<Rightarrow> 'a \<Rightarrow> bool) \<Rightarrow> 'a list \<Rightarrow> 'a list \<Rightarrow> error + 'a list" where
  "remove_each eq xs [] = Inr xs"
| "remove_each eq xs (u # us) =
     (case list_remove eq xs u of Inl e \<Rightarrow> Inl e | Inr xs' \<Rightarrow> remove_each eq xs' us)"

text \<open>
  The scan of one collection: the locators with \<^verbatim>\<open>uses <= 0\<close> are appended to the
  unused ones, and a locator with \<^verbatim>\<open>uses >= 99\<close> sets the flag.
\<close>

fun scan_locators :: "locator list \<Rightarrow> locator list \<times> bool \<Rightarrow> locator list \<times> bool" where
  "scan_locators [] acc = acc"
| "scan_locators (l # ls) (unused, remove_unused) =
     scan_locators ls
       (if uses l \<le> 0 then unused @ [l] else unused,
        if uses l \<ge> 99 then True else remove_unused)"

text \<open>
  \<^verbatim>\<open>Action.clean\<close>: the count returned and the action as the call leaves it.  (The
  source guards the removal loop with \<^verbatim>\<open>if unused_locators\<close> for its log line; the
  loop over an empty list does nothing.)
\<close>

definition Action_clean :: "action \<Rightarrow> bool \<Rightarrow> error + (int \<times> action)" where
  "Action_clean a force =
     (case scan_locators (locators a) ([], force) of
        (unused_locators, remove_unused_locators) \<Rightarrow>
          if \<not> remove_unused_locators then Inr (0, a)
          else (case remove_each locator_eq (locators a) unused_locators of
                  Inl e \<Rightarrow> Inl e
                | Inr ls \<Rightarrow> Inr (int (length unused_locators), a\<lparr>locators := ls\<rparr>)))"

text \<open>
  \<^verbatim>\<open>Locators.clean\<close>: one flag for both sides.
\<close>

definition Locators_clean :: "locator_set \<Rightarrow> bool \<Rightarrow> error + (int \<times> locator_set)" where
  "Locators_clean s force =
     (case scan_locators (inclusions s) ([], force) of
        (unused_inclusion_locators, remove_so_far) \<Rightarrow>
     (case scan_locators (exclusions s) ([], remove_so_far) of
        (unused_exclusion_locators, remove_unused_locators) \<Rightarrow>
          if \<not> remove_unused_locators then Inr (0, s)
          else (case remove_each locator_eq (inclusions s) unused_inclusion_locators of
                  Inl e \<Rightarrow> Inl e
                | Inr incl \<Rightarrow>
               (case remove_each locator_eq (exclusions s) unused_exclusion_locators of
                  Inl e \<Rightarrow> Inl e
                | Inr excl \<Rightarrow>
                    Inr (int (length unused_inclusion_locators)
                           + int (length unused_exclusion_locators),
                         s\<lparr>inclusions := incl, exclusions := excl\<rparr>)))))"

text \<open>
  \<^verbatim>\<open>for action in self.actions: count += action.clean(force=force)\<close>.
\<close>

fun clean_actions :: "action list \<Rightarrow> bool \<Rightarrow> error + (int \<times> action list)" where
  "clean_actions [] force = Inr (0, [])"
| "clean_actions (a # as) force =
     (case Action_clean a force of
        Inl e \<Rightarrow> Inl e
      | Inr (n, a') \<Rightarrow>
          (case clean_actions as force of
             Inl e \<Rightarrow> Inl e
           | Inr (m, as') \<Rightarrow> Inr (n + m, a' # as')))"

text \<open>
  An action is unused when \<^verbatim>\<open>all(locator.uses <= 0 for locator in action.locators)\<close>.
\<close>

definition unused_action :: "action \<Rightarrow> bool" where
  "unused_action a = list_all (\<lambda>l. uses l \<le> 0) (locators a)"

text \<open>
  \<^verbatim>\<open>Page.clean\<close>.  \<^verbatim>\<open>remove_unused_actions\<close> is \<^verbatim>\<open>force\<close> and is never assigned
  again.
\<close>

definition Page_clean :: "page \<Rightarrow> bool \<Rightarrow> world \<Rightarrow> error + (int \<times> page \<times> world)" where
  "Page_clean p force w =
     (case Locators_clean (page_locators p) force of
        Inl e \<Rightarrow> Inl e
      | Inr (count0, s) \<Rightarrow>
          (let unused_actions = filter unused_action (actions p);
               remove_unused_actions = force
           in case (if unused_actions \<noteq> [] \<and> remove_unused_actions
                    then remove_each action_eq (actions p) unused_actions
                    else Inr (actions p)) of
                Inl e \<Rightarrow> Inl e
              | Inr as1 \<Rightarrow>
                  (case clean_actions as1 force of
                     Inl e \<Rightarrow> Inl e
                   | Inr (n, as2) \<Rightarrow>
                       (let count = count0 + n;
                            p' = p\<lparr>page_locators := s, actions := as2\<rparr>
                        in Inr (count, p', if count \<noteq> 0 \<or> force then save p' w else w)))))"

section \<open>Page identification\<close>

text \<open>
  \<^verbatim>\<open>Page.exact\<close>: \<^verbatim>\<open>"{" not in self.path\<close>.
\<close>

definition exact :: "page \<Rightarrow> bool" where
  "exact p = (CHR ''{'' \<notin> set (path p))"

definition set_inclusion :: "page \<Rightarrow> nat \<Rightarrow> locator \<Rightarrow> page" where
  "set_inclusion p i l =
     p\<lparr>page_locators := (page_locators p)\<lparr>inclusions := (inclusions (page_locators p))[i := l]\<rparr>\<rparr>"

definition set_exclusion :: "page \<Rightarrow> nat \<Rightarrow> locator \<Rightarrow> page" where
  "set_exclusion p i l =
     p\<lparr>page_locators := (page_locators p)\<lparr>exclusions := (exclusions (page_locators p))[i := l]\<rparr>\<rparr>"

text \<open>
  The first loop of \<^verbatim>\<open>Page.active\<close>, over the positions of the sorted inclusions.
  The flag is false when the loop returned \<^verbatim>\<open>False\<close> from the method.
\<close>

fun active_inclusions :: "nat list \<Rightarrow> page \<Rightarrow> world \<Rightarrow> error + (bool \<times> page \<times> world)" where
  "active_inclusions [] p w = Inr (True, p, w)"
| "active_inclusions (i # is) p w =
     (case find (document w) (inclusions (page_locators p) ! i) of
        Inl e \<Rightarrow> Inl e
      | Inr (None, l) \<Rightarrow> Inr (False, set_inclusion p i l, w)
      | Inr (Some element, l) \<Rightarrow>
          (case score l 1 of
             (moved, l') \<Rightarrow>
               (let p' = set_inclusion p i l'
                in active_inclusions is p' (if moved then save p' w else w))))"

text \<open>
  The second loop, over the positions of the sorted exclusions.
\<close>

fun active_exclusions :: "nat list \<Rightarrow> page \<Rightarrow> world \<Rightarrow> error + (bool \<times> page \<times> world)" where
  "active_exclusions [] p w = Inr (True, p, w)"
| "active_exclusions (i # is) p w =
     (case find (document w) (exclusions (page_locators p) ! i) of
        Inl e \<Rightarrow> Inl e
      | Inr (None, l) \<Rightarrow> active_exclusions is (set_exclusion p i l) w
      | Inr (Some element, l) \<Rightarrow>
          (case score l 1 of
             (moved, l') \<Rightarrow>
               (let p' = set_exclusion p i l'
                in Inr (False, p', if moved then save p' w else w))))"

text \<open>
  \<^verbatim>\<open>Page.active\<close>: the answer, the page and the world as the call leaves them.
\<close>

definition active :: "env \<Rightarrow> page \<Rightarrow> world \<Rightarrow> error + (bool \<times> page \<times> world)" where
  "active env p w =
     (if url_ne env (domain p) (path p) (browser_url w) then Inr (False, p, w)
      else (case active_inclusions (sorted_indices (inclusions (page_locators p))) p w of
              Inl e \<Rightarrow> Inl e
            | Inr (False, p1, w1) \<Rightarrow> Inr (False, p1, w1)
            | Inr (True, p1, w1) \<Rightarrow>
                active_exclusions (sorted_indices (exclusions (page_locators p1))) p1 w1))"

section \<open>Registry disambiguation\<close>

text \<open>
  \<^verbatim>\<open>Action()\<close> and the page a constructor call builds from the defaults of the
  dataclass.
\<close>

definition default_action :: action where
  "default_action = \<lparr>verb = [], name = [], locators = [Locator [] []]\<rparr>"

definition default_page :: "string \<Rightarrow> string \<Rightarrow> string \<Rightarrow> page" where
  "default_page d pa v =
     \<lparr>domain = d, path = pa, variant = v,
      page_locators = \<lparr>inclusions = [], exclusions = []\<rparr>,
      actions = [default_action]\<rparr>"

text \<open>
  Modelled from the spec: the persistence layer that a constructor call of a page goes
  through is not part of the sources.  It is "load-if-exists": a page whose file exists
  is the stored page, and a never-before-seen page is the skeleton of the defaults.
\<close>

definition load_if_exists :: "page \<Rightarrow> world \<Rightarrow> page" where
  "load_if_exists p w =
     (case List.find (\<lambda>q. same_file q p) (registry w) of None \<Rightarrow> p | Some q \<Rightarrow> q)"

text \<open>
  \<^verbatim>\<open>Page.at(url, variant=variant)\<close>.
\<close>

definition Page_at :: "env \<Rightarrow> string \<Rightarrow> string \<Rightarrow> world \<Rightarrow> page \<times> world" where
  "Page_at env url v w =
     (let w1 = (if browser_url w \<noteq> url then visit env url w else w);
          v1 = (if v \<noteq> [] then v else url_fragment env url);
          v2 = (if v1 \<noteq> [] then v1 else ''default'')
      in (load_if_exists (default_page (url_domain env url) (url_path env url) v2) w1, w1))"

text \<open>
  The loop of \<^verbatim>\<open>auto\<close> over the pages of the domain.
\<close>

fun auto_scan ::
  "env \<Rightarrow> page list \<Rightarrow> page list \<times> bool \<Rightarrow> world \<Rightarrow> error + (page list \<times> bool \<times> world)" where
  "auto_scan env [] (matching_pages, found_exact_match) w =
     Inr (matching_pages, found_exact_match, w)"
| "auto_scan env (p # ps) (matching_pages, found_exact_match) w =
     (case active env p w of
        Inl e \<Rightarrow> Inl e
      | Inr (is_active, p', w') \<Rightarrow>
          auto_scan env ps
            (if is_active then matching_pages @ [p'] else matching_pages,
             if exact p' then True else found_exact_match) w')"

text \<open>
  \<^verbatim>\<open>auto()\<close>: the page returned and the world as the call leaves it.
\<close>

definition auto :: "env \<Rightarrow> world \<Rightarrow> error + (page \<times> world)" where
  "auto env w =
     (case auto_scan env
             [p \<leftarrow> registry w. domain p = url_domain env (browser_url w)] ([], False) w of
        Inl e \<Rightarrow> Inl e
      | Inr (matching_pages, found_exact_match, w1) \<Rightarrow>
          (case (if found_exact_match then filter exact matching_pages else matching_pages) of
             m # ms \<Rightarrow> Inr (m, w1)
           | [] \<Rightarrow>
               (case Page_at env (browser_url w1) [] w1 of
                  (p, w2) \<Rightarrow> Inr (p, save p w2))))"

section \<open>Dispatch\<close>

text \<open>
  \<^verbatim>\<open>Action._perform_action\<close>: the three exceptions named are caught, any other one
  escapes.
\<close>

definition perform_action ::
  "env \<Rightarrow> action \<Rightarrow> interaction \<Rightarrow> string list \<Rightarrow> string option \<Rightarrow> world \<Rightarrow> error + (bool \<times> world)" where
  "perform_action env a function args wait w =
     (let previous_url = browser_url w in
      case function args w of
        (Some e, w') \<Rightarrow>
          if e = ElementDoesNotExist then Inr (False, w')
          else if e = ElementNotInteractableException then Inr (False, w')
          else if e = WebDriverException then Inr (False, w')
          else Inl e
      | (None, w') \<Rightarrow>
          (case Verb env (verb a) of
             Inl e \<Rightarrow> Inl e
           | Inr v \<Rightarrow>
               (case post_action env v previous_url wait w' of
                  Inl e \<Rightarrow> Inl e
                | Inr w'' \<Rightarrow> Inr (True, w''))))"

text \<open>
  The body of the loop of \<^verbatim>\<open>Action._trying_locators\<close> for one locator: whether the
  method returned (the dispatch succeeded), the locator after its \<^verbatim>\<open>score\<close>, and the
  world.
\<close>

definition try_locator ::
  "env \<Rightarrow> action \<Rightarrow> string list \<Rightarrow> string option \<Rightarrow> locator \<Rightarrow> world
     \<Rightarrow> error + (bool \<times> locator \<times> world)" where
  "try_locator env a args wait locator0 w =
     (if locator_bool locator0 then
        (case find (document w) locator0 of
           Inl e \<Rightarrow> Inl e
         | Inr (None, l) \<Rightarrow> Inr (False, snd (score l (- 1)), w)
         | Inr (Some element, l) \<Rightarrow>
             (case getattr_element env element (verb a) of
                Inl e \<Rightarrow> Inl e
              | Inr function \<Rightarrow>
                  (case perform_action env a function args wait w of
                     Inl e \<Rightarrow> Inl e
                   | Inr (True, w') \<Rightarrow> Inr (True, snd (score l 1), w')
                   | Inr (False, w') \<Rightarrow> Inr (False, snd (score l (- 1)), w'))))
      else Inr (False, snd (score locator0 (- 1)), w))"

text \<open>
  The loop over the positions of the sorted locators.  The flag is the value the method
  returns: false when a locator succeeded, true when all of them failed.
\<close>

fun trying_loop ::
  "env \<Rightarrow> string list \<Rightarrow> string option \<Rightarrow> nat list \<Rightarrow> action \<Rightarrow> world
     \<Rightarrow> error + (bool \<times> action \<times> world)" where
  "trying_loop env args wait [] a w = Inr (True, a, w)"
| "trying_loop env args wait (i # is) a w =
     (case try_locator env a args wait (locators a ! i) w of
        Inl e \<Rightarrow> Inl e
      | Inr (True, l, w') \<Rightarrow> Inr (False, a\<lparr>locators := (locators a)[i := l]\<rparr>, w')
      | Inr (False, l, w') \<Rightarrow>
          trying_loop env args wait is (a\<lparr>locators := (locators a)[i := l]\<rparr>) w')"

text \<open>
  \<^verbatim>\<open>Action._trying_locators\<close>.
\<close>

definition trying_locators ::
  "env \<Rightarrow> string list \<Rightarrow> string option \<Rightarrow> action \<Rightarrow> world \<Rightarrow> error + (bool \<times> action \<times> world)" where
  "trying_locators env args wait a w =
     (case Verb env (verb a) of
        Inl e \<Rightarrow> Inl e
      | Inr v \<Rightarrow>
          if is_type v then
            (case send_keys env (name a) of
               Inl e \<Rightarrow> Inl e
             | Inr function \<Rightarrow>
                 (case perform_action env a function args wait w of
                    Inl e \<Rightarrow> Inl e
                  | Inr (done, w') \<Rightarrow> Inr (False, a, w')))
          else trying_loop env args wait (sorted_indices (locators a)) a w)"

text \<open>
  The \<^verbatim>\<open>while\<close> loop of \<^verbatim>\<open>Action._call_method\<close>.  The operator may answer every
  prompt with a locator that fails, so the loop need not end: \<open>None\<close> is the run that
  never returns.
\<close>

partial_function (option) call_method_loop ::
  "env \<Rightarrow> string list \<Rightarrow> string option \<Rightarrow> action \<Rightarrow> world \<Rightarrow> (error + (action \<times> world)) option" where
  "call_method_loop env args wait a w =
     (case trying_locators env args wait a w of
        Inl e \<Rightarrow> Some (Inl e)
      | Inr (failed, a', w') \<Rightarrow>
          if failed then
            (case mode_and_value env (prompted w') of
               (m, v) \<Rightarrow>
                 if m \<noteq> [] then
                   call_method_loop env args wait
                     (a'\<lparr>locators := locators a' @ [Locator m v]\<rparr>)
                     (w'\<lparr>prompted := Suc (prompted w')\<rparr>)
                 else Some (Inr (a', w'\<lparr>prompted := Suc (prompted w')\<rparr>)))
          else Some (Inr (a', w')))"

declare call_method_loop.simps [code]

text \<open>
  The end of \<^verbatim>\<open>Action._call_method\<close>, after the loop:
  \<^verbatim>\<open>if page and self._verb.updates: return page\<close>, else \<^verbatim>\<open>return auto()\<close>.  The page
  argument is \<^verbatim>\<open>None\<close> or a page.
\<close>

definition return_page ::
  "env \<Rightarrow> page option \<Rightarrow> action \<Rightarrow> world \<Rightarrow> error + (page \<times> action \<times> world)" where
  "return_page env page0 a w =
     (case page0 of
        None \<Rightarrow> (case auto env w of Inl e \<Rightarrow> Inl e | Inr (p, w') \<Rightarrow> Inr (p, a, w'))
      | Some page1 \<Rightarrow>
          (case Verb env (verb a) of
             Inl e \<Rightarrow> Inl e
           | Inr v \<Rightarrow>
               if updates v then Inr (page1, a, w)
               else (case auto env w of Inl e \<Rightarrow> Inl e | Inr (p, w') \<Rightarrow> Inr (p, a, w'))))"

text \<open>
  \<^verbatim>\<open>Action._call_method\<close>: the page returned to the caller, the action and the world
  as the call leaves them.
\<close>

definition call_method ::
  "env \<Rightarrow> page option \<Rightarrow> string list \<Rightarrow> string option \<Rightarrow> action \<Rightarrow> world
     \<Rightarrow> (error + (page \<times> action \<times> world)) option" where
  "call_method env page0 args wait a w =
     (case call_method_loop env args wait a w of
        None \<Rightarrow> None
      | Some (Inl e) \<Rightarrow> Some (Inl e)
      | Some (Inr (a', w')) \<Rightarrow> Some (return_page env page0 a' w'))"

section \<open>Notions of the specification and example data\<close>

text \<open>
  A collection is confirmed when one of its locators has reached \<^verbatim>\<open>uses >= 99\<close>.
\<close>

definition confirmed :: "locator list \<Rightarrow> bool" where
  "confirmed ls = list_ex (\<lambda>l. uses l \<ge> 99) ls"

text \<open>
  Example data: a locator with a mode, a value and the given score; a locator set whose
  inclusions are confirmed and whose exclusions hold one locator of score 0; an action
  whose only locator has score 0 and one with a confirmed and an unused locator; a page
  that owns them; a world with an empty document.
\<close>

definition example_locator :: "int \<Rightarrow> locator" where
  "example_locator u = \<lparr>mode = ''id'', value' = ''submit'', index = 0, uses = u\<rparr>"

definition example_set :: locator_set where
  "example_set = \<lparr>inclusions = [example_locator 99], exclusions = [example_locator 0]\<rparr>"

definition unused_example :: action where
  "unused_example = \<lparr>verb = ''click'', name = ''cancel'', locators = [example_locator 0]\<rparr>"

definition confirmed_example :: action where
  "confirmed_example =
     \<lparr>verb = ''click'', name = ''submit'', locators = [example_locator 99, example_locator 0]\<rparr>"

definition example_page :: page where
  "example_page =
     \<lparr>domain = ''example.com'', path = ''/login'', variant = ''default'',
      page_locators = \<lparr>inclusions = [example_locator 99], exclusions = []\<rparr>,
      actions = [unused_example, confirmed_example]\<rparr>"

definition empty_document :: document where
  "empty_document m v = Inr []"


definition example_world :: world where
  "example_world =
     \<lparr>browser_url = ''http://example.com/login'', document = empty_document,
      registry = [], prompted = 0\<rparr>"

text \<open>
  An environment with three verbs, interactions that always succeed and change nothing,
  an operator who declines every prompt, and URLs of one site; the template path
  \<^verbatim>\<open>/{page}\<close> matches every URL.  A second operator answers the first prompt with a
  locator and declines afterwards.
\<close>

definition example_env :: env where
  "example_env =
     \<lparr>Verb = (\<lambda>s. if s = ''click'' then Inr \<lparr>is_type = False, updates = False\<rparr>
                  else if s = ''fill'' then Inr \<lparr>is_type = False, updates = True\<rparr>
                  else if s = ''type'' then Inr \<lparr>is_type = True, updates = False\<rparr>
                  else Inl ValueError),
      post_action = (\<lambda>v previous_url wait w. Inr w),
      getattr_element = (\<lambda>element s. Inr (\<lambda>args w. (None, w))),
      send_keys = (\<lambda>s. Inr (\<lambda>args w. (None, w))),
      mode_and_value = (\<lambda>n. ([], [])),
      url_domain = (\<lambda>u. ''example.com''),
      url_path = (\<lambda>u. ''/login''),
      url_fragment = (\<lambda>u. []),
      url_ne = (\<lambda>d p u. u \<noteq> ''http://'' @ d @ p \<and> p \<noteq> ''/{page}''),
      visit = (\<lambda>u w. w\<lparr>browser_url := u\<rparr>)\<rparr>"

definition repairing_env :: env where
  "repairing_env =
     example_env\<lparr>mode_and_value := (\<lambda>n. if n = 0 then (''id'', ''username'') else ([], []))\<rparr>"

text \<open>
  A document with one visible element, found by the id \<^verbatim>\<open>username\<close>.
\<close>

definition login_document :: document where
  "login_document m v =
     (if m = ''id'' \<and> v = ''username''
      then Inr [\<lparr>visible = True, outer_html = ''<input>''\<rparr>] else Inr [])"

text \<open>
  Pages of the site: one whose second inclusion is not in the document, one with an exact
  path that the document satisfies, and one with a template path.
\<close>

definition login_page :: page where
  "login_page =
     \<lparr>domain = ''example.com'', path = ''/login'', variant = ''default'',
      page_locators =
        \<lparr>inclusions = [\<lparr>mode = ''id'', value' = ''username'', index = 0, uses = 5\<rparr>,
                       \<lparr>mode = ''id'', value' = ''password'', index = 0, uses = 3\<rparr>],
         exclusions = [\<lparr>mode = ''id'', value' = ''username'', index = 0, uses = 2\<rparr>]\<rparr>,
      actions = []\<rparr>"

definition exact_page :: page where
  "exact_page =
     \<lparr>domain = ''example.com'', path = ''/login'', variant = ''default'',
      page_locators =
        \<lparr>inclusions = [\<lparr>mode = ''id'', value' = ''username'', index = 0, uses = 5\<rparr>],
         exclusions = []\<rparr>,
      actions = []\<rparr>"

definition template_page :: page where
  "template_page =
     \<lparr>domain = ''example.com'', path = ''/{page}'', variant = ''default'',
      page_locators = \<lparr>inclusions = [], exclusions = []\<rparr>,
      actions = []\<rparr>"

definition login_world :: "page list \<Rightarrow> world" where
  "login_world pages =
     \<lparr>browser_url = ''http://example.com/login'', document = login_document,
      registry = pages, prompted = 0\<rparr>"

text \<open>
  Actions: a click with two locators, of which the first is not in the document; a fill
  whose only locator is not in the document; a fill whose locator is.
\<close>

definition click_login :: action where
  "click_login =
     \<lparr>verb = ''click'', name = ''login'',
      locators = [\<lparr>mode = ''id'', value' = ''missing'', index = 0, uses = 5\<rparr>,
                  \<lparr>mode = ''id'', value' = ''username'', index = 0, uses = 3\<rparr>]\<rparr>"

definition fill_email :: action where
  "fill_email =
     \<lparr>verb = ''fill'', name = ''email'',
      locators = [\<lparr>mode = ''id'', value' = ''email'', index = 0, uses = 0\<rparr>]\<rparr>"

definition fill_username :: action where
  "fill_username =
     \<lparr>verb = ''fill'', name = ''username'',
      locators = [\<lparr>mode = ''id'', value' = ''username'', index = 0, uses = 0\<rparr>]\<rparr>"

section \<open>Scoring\<close>

text \<open>
  C1.  For every locator and every integer delta, \<open>score\<close> sets \<open>uses\<close> to
  \<open>min 99 (max 1 (uses + delta))\<close> when the delta is positive and to
  \<open>max (-1) (uses + delta)\<close> otherwise, leaves the other fields alone, and returns
  false exactly when the new value equals the previous one.
\<close>

theorem score_clamps:
  "uses (snd (score l delta)) =
     (if delta > 0 then min 99 (max 1 (uses l + delta)) else max (- 1) (uses l + delta))
   \<and> fst (score l delta) = (uses (snd (score l delta)) \<noteq> uses l)
   \<and> mode (snd (score l delta)) = mode l
   \<and> value' (snd (score l delta)) = value' l
   \<and> index (snd (score l delta)) = index l"
  by (auto simp: score_def Let_def)

section \<open>Element resolution\<close>

lemma find_None_same: "find doc l = Inr (None, l') \<Longrightarrow> l' = l"
  by (auto simp: find_def Let_def split: sum.splits option.splits if_splits)

lemma find_fields:
  "find doc l = Inr (r, l') \<Longrightarrow> mode l' = mode l \<and> value' l' = value' l \<and> uses l' = uses l"
  by (auto simp: find_def Let_def split: sum.splits option.splits if_splits)



section \<open>The order of the candidates\<close>

lemma insort_key_cong_set:
  "f x = g x \<Longrightarrow> (\<And>y. y \<in> set xs \<Longrightarrow> f y = g y) \<Longrightarrow> insort_key f x xs = insort_key g x xs"
  by (induction xs) auto

lemma sort_key_cong_set:
  "(\<And>y. y \<in> set xs \<Longrightarrow> f y = g y) \<Longrightarrow> sort_key f xs = sort_key g xs"
proof (induction xs)
  case Nil
  then show ?case by simp
next
  case (Cons x xs)
  have "sort_key f xs = sort_key g xs"
    using Cons by simp
  moreover have "insort_key f x (sort_key g xs) = insort_key g x (sort_key g xs)"
    using Cons.prems by (intro insort_key_cong_set) simp_all
  ultimately show ?case by simp
qed

lemma insort_key_map_comp:
  "insort_key f (g x) (map g xs) = map g (insort_key (\<lambda>y. f (g y)) x xs)"
  by (induction xs) auto

lemma sort_key_map_comp: "sort_key f (map g xs) = map g (sort_key (\<lambda>y. f (g y)) xs)"
  by (induction xs) (auto simp: insort_key_map_comp)

lemma sorted_reverse_positions:
  "sorted_reverse xs = map ((!) xs) (descending_order (map uses xs))"
proof -
  have "sort_key (\<lambda>l. - uses l) (map ((!) xs) [0..<length xs])
        = map ((!) xs) (sort_key (\<lambda>i. - uses (xs ! i)) [0..<length xs])"
    by (rule sort_key_map_comp)
  moreover have "sort_key (\<lambda>i. - uses (xs ! i)) [0..<length xs]
        = sort_key (\<lambda>i. - (map uses xs ! i)) [0..<length xs]"
    by (rule sort_key_cong_set) simp
  ultimately show ?thesis
    by (simp add: sorted_reverse_def descending_order_def map_nth)
qed

lemma descending_order_set: "set (descending_order us) = {0..<length us}"
  by (simp add: descending_order_def)

lemma descending_order_distinct: "distinct (descending_order us)"
  by (simp add: descending_order_def)

lemma sorted_indices_distinct: "distinct (sorted_indices xs)"
  by (simp add: sorted_indices_def descending_order_distinct)

lemma sorted_indices_bound: "i \<in> set (sorted_indices xs) \<Longrightarrow> i < length xs \<and> locator_bool (xs ! i)"
  by (auto simp: sorted_indices_def descending_order_set)

lemma usable_positions:
  "[x \<leftarrow> sorted_reverse xs. locator_bool x] = map ((!) xs) (sorted_indices xs)"
  by (simp add: sorted_reverse_positions sorted_indices_def filter_map comp_def)

lemma sorted_reverse_descending: "sorted_wrt (\<lambda>x y. uses x \<ge> uses y) (sorted_reverse xs)"
proof -
  have "sorted (map (\<lambda>l. - uses l) (sort_key (\<lambda>l. - uses l) xs))"
    by (rule sorted_sort_key)
  then show ?thesis
    by (simp add: sorted_reverse_def sorted_map)
qed

lemma ranked_candidates_usable:
  "ranked_candidates xs [x \<leftarrow> sorted_reverse xs. locator_bool x]"
  unfolding ranked_candidates_def
proof (intro conjI)
  show "mset [x \<leftarrow> sorted_reverse xs. locator_bool x] = filter_mset locator_bool (mset xs)"
    by (simp add: sorted_reverse_def)
  show "sorted_wrt (\<lambda>x y. uses x \<ge> uses y) [x \<leftarrow> sorted_reverse xs. locator_bool x]"
    by (rule sorted_wrt_filter) (rule sorted_reverse_descending)
  show "list_all (\<lambda>l. mode l \<noteq> [] \<and> value' l \<noteq> []) [x \<leftarrow> sorted_reverse xs. locator_bool x]"
    by (simp add: list_all_iff locator_bool_def)
  show "[x \<leftarrow> sorted_reverse xs. locator_bool x]
        = map ((!) xs) [i \<leftarrow> descending_order (map uses xs). locator_bool (xs ! i)]"
    using usable_positions [of xs] by (simp add: sorted_indices_def)
qed

text \<open>
  C7.  For every action and for each side of every locator set, the sorted candidates are
  exactly the owned locators with a mode and a value (as a multiset), in descending order
  of score; none of them has an empty mode or an empty value; and they are the owned
  locators at the positions of \<open>descending_order\<close>, which is computed from the scores
  alone: mode, value and index have no part in the order.
\<close>

theorem sorted_candidates_ranked:
  "ranked_candidates (locators a) (sorted_locators a)
   \<and> ranked_candidates (inclusions s) (sorted_inclusions s)
   \<and> ranked_candidates (exclusions s) (sorted_exclusions s)"
  by (simp add: sorted_locators_def sorted_inclusions_def sorted_exclusions_def
      ranked_candidates_usable)

section \<open>What garbage collection removes\<close>

lemma scan_locators_eq:
  "scan_locators ls (un, r) =
     (un @ filter (\<lambda>l. uses l \<le> 0) ls, r \<or> list_ex (\<lambda>l. uses l \<ge> 99) ls)"
  by (induction ls arbitrary: un r) auto

lemma list_remove_Inr:
  "list_remove eq xs x = Inr zs \<Longrightarrow>
     \<exists>as y bs. xs = as @ y # bs \<and> zs = as @ bs \<and> eq y x"
proof (induction xs arbitrary: zs)
  case Nil
  then show ?case by simp
next
  case (Cons a xs)
  show ?case
  proof (cases "eq a x")
    case True
    with Cons.prems have "zs = xs" by simp
    with True show ?thesis by (intro exI [of _ "[]"] exI [of _ a] exI [of _ xs]) simp
  next
    case False
    with Cons.prems obtain zs' where r: "list_remove eq xs x = Inr zs'" and z: "zs = a # zs'"
      by (auto split: sum.splits)
    from Cons.IH [OF r] obtain as y bs where "xs = as @ y # bs" "zs' = as @ bs" "eq y x"
      by blast
    with z show ?thesis
      by (intro exI [of _ "a # as"] exI [of _ y] exI [of _ bs]) simp
  qed
qed

lemma list_remove_finds:
  "y \<in> set xs \<Longrightarrow> eq y x \<Longrightarrow> \<exists>zs. list_remove eq xs x = Inr zs"
  by (induction xs) (auto split: sum.splits)

lemma remove_each_filter:
  assumes eqk: "\<And>a b. eq a b = (key a = key b)"
    and Pk: "\<And>a b. key a = key b \<Longrightarrow> P a = P b"
  shows "mset (map key us) = mset (map key (filter P xs)) \<Longrightarrow>
         remove_each eq xs us = Inr (filter (\<lambda>x. \<not> P x) xs)"
proof (induction us arbitrary: xs)
  case Nil
  then have "filter P xs = []" by simp
  then have "filter (\<lambda>x. \<not> P x) xs = xs"
    by (simp add: filter_empty_conv)
  then show ?case by simp
next
  case (Cons u us)
  have "key u \<in># mset (map key (filter P xs))"
    using Cons.prems by (metis list.set_intros(1) list.simps(9) set_mset_mset)
  then obtain y where y: "y \<in> set xs" "P y" "key y = key u"
    by auto
  then obtain zs where r: "list_remove eq xs u = Inr zs"
    using list_remove_finds [of y xs eq u] eqk by auto
  from list_remove_Inr [OF r] obtain as y' bs
    where d: "xs = as @ y' # bs" "zs = as @ bs" "eq y' u" by blast
  have ky: "key y' = key u" using d(3) eqk by simp
  have Py: "P y'" using Pk [of y' y] y ky by simp
  have "mset (map key (filter P xs)) = add_mset (key u) (mset (map key (filter P zs)))"
    using d Py ky by simp
  with Cons.prems have "mset (map key us) = mset (map key (filter P zs))"
    by simp
  from Cons.IH [OF this] have "remove_each eq zs us = Inr (filter (\<lambda>x. \<not> P x) zs)" .
  moreover have "filter (\<lambda>x. \<not> P x) zs = filter (\<lambda>x. \<not> P x) xs"
    using d Py by simp
  ultimately show ?case using r by simp
qed

lemma remove_unused_locators:
  "remove_each locator_eq xs (filter (\<lambda>l. uses l \<le> 0) xs) = Inr (filter (\<lambda>l. \<not> uses l \<le> 0) xs)"
  by (rule remove_each_filter [where key = uses]) (simp_all add: locator_eq_def)

lemma list_all2_locator_eq:
  "list_all2 locator_eq xs ys = (map uses xs = map uses ys)"
proof (induction xs arbitrary: ys)
  case Nil
  then show ?case by simp
next
  case (Cons x xs)
  then show ?case by (cases ys) (auto simp: locator_eq_def)
qed

lemma remove_unused_actions:
  "remove_each action_eq xs (filter unused_action xs) = Inr (filter (\<lambda>a. \<not> unused_action a) xs)"
proof (rule remove_each_filter [where key = "\<lambda>a. (verb a, name a, map uses (locators a))"])
  show "action_eq a b = ((verb a, name a, map uses (locators a)) = (verb b, name b, map uses (locators b)))"
    for a b
    by (simp add: action_eq_def list_all2_locator_eq)
  show "unused_action a = unused_action b"
    if "(verb a, name a, map uses (locators a)) = (verb b, name b, map uses (locators b))" for a b
  proof -
    have "unused_action c = list_all (\<lambda>u. u \<le> 0) (map uses (locators c))" for c
      by (simp add: unused_action_def list_all_iff)
    with that show ?thesis by simp
  qed
  show "mset (map (\<lambda>a. (verb a, name a, map uses (locators a))) (filter unused_action xs)) =
        mset (map (\<lambda>a. (verb a, name a, map uses (locators a))) (filter unused_action xs))"
    by simp
qed

lemma Action_clean_eq:
  "Action_clean a force =
     (if force \<or> confirmed (locators a)
      then Inr (int (length [l \<leftarrow> locators a. uses l \<le> 0]),
                a\<lparr>locators := [l \<leftarrow> locators a. \<not> uses l \<le> 0]\<rparr>)
      else Inr (0, a))"
  by (simp add: Action_clean_def scan_locators_eq remove_unused_locators confirmed_def)

lemma Locators_clean_eq:
  "Locators_clean s force =
     (if force \<or> confirmed (inclusions s) \<or> confirmed (exclusions s)
      then Inr (int (length [l \<leftarrow> inclusions s. uses l \<le> 0])
                  + int (length [l \<leftarrow> exclusions s. uses l \<le> 0]),
                s\<lparr>inclusions := [l \<leftarrow> inclusions s. \<not> uses l \<le> 0],
                  exclusions := [l \<leftarrow> exclusions s. \<not> uses l \<le> 0]\<rparr>)
      else Inr (0, s))"
  by (simp add: Locators_clean_def scan_locators_eq remove_unused_locators confirmed_def)

lemma length_removed:
  "int (length [l \<leftarrow> ls. uses l \<le> (0::int)]) = int (length ls) - int (length [l \<leftarrow> ls. 0 < uses l])"
proof -
  have "length ls = length [l \<leftarrow> ls. uses l \<le> 0] + length [l \<leftarrow> ls. \<not> uses l \<le> 0]"
    by (rule sum_length_filter_compl [symmetric])
  then show ?thesis by (simp add: not_le)
qed

text \<open>
  C3, as amended.  The owning collection of the rule is the action, or the locator set
  with both of its sides.  \<open>Action_clean\<close> removes nothing unless \<open>force\<close> is set or a
  locator of the action has \<open>uses \<ge> 99\<close>, and then keeps exactly the locators with
  \<open>uses > 0\<close>.  \<open>Locators_clean\<close> removes nothing unless \<open>force\<close> is set or a
  locator of either side has \<open>uses \<ge> 99\<close>, and then keeps exactly the locators with
  \<open>uses > 0\<close> on both sides.  The number returned is the number of locators removed.
\<close>

theorem clean_force_or_confirmed:
  "Action_clean a force =
     (if force \<or> confirmed (locators a)
      then Inr (int (length (locators a)) - int (length [l \<leftarrow> locators a. 0 < uses l]),
                a\<lparr>locators := [l \<leftarrow> locators a. 0 < uses l]\<rparr>)
      else Inr (0, a))
   \<and> Locators_clean s force =
     (if force \<or> confirmed (inclusions s) \<or> confirmed (exclusions s)
      then Inr (int (length (inclusions s)) - int (length [l \<leftarrow> inclusions s. 0 < uses l])
                  + (int (length (exclusions s)) - int (length [l \<leftarrow> exclusions s. 0 < uses l])),
                s\<lparr>inclusions := [l \<leftarrow> inclusions s. 0 < uses l],
                  exclusions := [l \<leftarrow> exclusions s. 0 < uses l]\<rparr>)
      else Inr (0, s))"
  by (simp add: Action_clean_eq Locators_clean_eq length_removed not_le)

text \<open>
  C3 as stated fails for one side of a locator set: without \<open>force\<close>, the exclusion
  of score 0 is removed although no exclusion has reached 99 (an inclusion has).
\<close>

theorem clean_one_side_counterexample:
  "\<not> confirmed (exclusions example_set)
   \<and> Locators_clean example_set False = Inr (1, example_set\<lparr>exclusions := []\<rparr>)"
  by (simp add: Locators_clean_eq example_set_def example_locator_def confirmed_def)

lemma mset_split_unused:
  "mset ls = mset [l \<leftarrow> ls. \<not> uses l \<le> (0::int)] + mset [l \<leftarrow> ls. uses l \<le> 0]"
  by (induction ls) auto

text \<open>
  C9.  \<open>Action_clean\<close> and \<open>Locators_clean\<close> always return, with or without
  \<open>force\<close>; the locators with \<open>uses > 0\<close> are the same before and after, in the
  same order; and every locator removed has \<open>uses \<le> 0\<close>.
\<close>

theorem clean_keeps_positive:
  "(\<exists>n a' removed. Action_clean a force = Inr (n, a')
       \<and> [l \<leftarrow> locators a'. 0 < uses l] = [l \<leftarrow> locators a. 0 < uses l]
       \<and> mset (locators a) = mset (locators a') + mset removed
       \<and> list_all (\<lambda>l. uses l \<le> 0) removed)
   \<and> (\<exists>n s' removed_inclusions removed_exclusions. Locators_clean s force = Inr (n, s')
       \<and> [l \<leftarrow> inclusions s'. 0 < uses l] = [l \<leftarrow> inclusions s. 0 < uses l]
       \<and> [l \<leftarrow> exclusions s'. 0 < uses l] = [l \<leftarrow> exclusions s. 0 < uses l]
       \<and> mset (inclusions s) = mset (inclusions s') + mset removed_inclusions
       \<and> mset (exclusions s) = mset (exclusions s') + mset removed_exclusions
       \<and> list_all (\<lambda>l. uses l \<le> 0) removed_inclusions
       \<and> list_all (\<lambda>l. uses l \<le> 0) removed_exclusions)"
proof (intro conjI)
  show "\<exists>n a' removed. Action_clean a force = Inr (n, a')
       \<and> [l \<leftarrow> locators a'. 0 < uses l] = [l \<leftarrow> locators a. 0 < uses l]
       \<and> mset (locators a) = mset (locators a') + mset removed
       \<and> list_all (\<lambda>l. uses l \<le> 0) removed"
  proof (cases "force \<or> confirmed (locators a)")
    case True
    then have "Action_clean a force = Inr (int (length [l \<leftarrow> locators a. uses l \<le> 0]),
                a\<lparr>locators := [l \<leftarrow> locators a. \<not> uses l \<le> 0]\<rparr>)"
      by (simp add: Action_clean_eq)
    then show ?thesis
      using mset_split_unused [of "locators a"]
      by (intro exI [of _ "int (length [l \<leftarrow> locators a. uses l \<le> 0])"]
          exI [of _ "a\<lparr>locators := [l \<leftarrow> locators a. \<not> uses l \<le> 0]\<rparr>"]
          exI [of _ "[l \<leftarrow> locators a. uses l \<le> 0]"])
        (simp add: list_all_iff not_le)
  next
    case False
    then have "Action_clean a force = Inr (0, a)"
      by (simp add: Action_clean_eq)
    then show ?thesis
      by (intro exI [of _ 0] exI [of _ a] exI [of _ "[]"]) simp
  qed
  show "\<exists>n s' removed_inclusions removed_exclusions. Locators_clean s force = Inr (n, s')
       \<and> [l \<leftarrow> inclusions s'. 0 < uses l] = [l \<leftarrow> inclusions s. 0 < uses l]
       \<and> [l \<leftarrow> exclusions s'. 0 < uses l] = [l \<leftarrow> exclusions s. 0 < uses l]
       \<and> mset (inclusions s) = mset (inclusions s') + mset removed_inclusions
       \<and> mset (exclusions s) = mset (exclusions s') + mset removed_exclusions
       \<and> list_all (\<lambda>l. uses l \<le> 0) removed_inclusions
       \<and> list_all (\<lambda>l. uses l \<le> 0) removed_exclusions"
  proof (cases "force \<or> confirmed (inclusions s) \<or> confirmed (exclusions s)")
    case True
    then have "Locators_clean s force =
      Inr (int (length [l \<leftarrow> inclusions s. uses l \<le> 0])
                  + int (length [l \<leftarrow> exclusions s. uses l \<le> 0]),
                s\<lparr>inclusions := [l \<leftarrow> inclusions s. \<not> uses l \<le> 0],
                  exclusions := [l \<leftarrow> exclusions s. \<not> uses l \<le> 0]\<rparr>)"
      by (simp add: Locators_clean_eq)
    then show ?thesis
      using mset_split_unused [of "inclusions s"] mset_split_unused [of "exclusions s"]
      by (intro exI [of _ "int (length [l \<leftarrow> inclusions s. uses l \<le> 0])
                  + int (length [l \<leftarrow> exclusions s. uses l \<le> 0])"]
          exI [of _ "s\<lparr>inclusions := [l \<leftarrow> inclusions s. \<not> uses l \<le> 0],
                  exclusions := [l \<leftarrow> exclusions s. \<not> uses l \<le> 0]\<rparr>"]
          exI [of _ "[l \<leftarrow> inclusions s. uses l \<le> 0]"]
          exI [of _ "[l \<leftarrow> exclusions s. uses l \<le> 0]"])
        (simp add: list_all_iff not_le)
  next
    case False
    then have "Locators_clean s force = Inr (0, s)"
      by (simp add: Locators_clean_eq)
    then show ?thesis
      by (intro exI [of _ 0] exI [of _ s] exI [of _ "[]"]) simp
  qed
qed

lemma clean_actions_eq:
  "clean_actions as force =
     Inr (sum_list (map (\<lambda>a. if force \<or> confirmed (locators a)
                               then int (length [l \<leftarrow> locators a. uses l \<le> 0]) else 0) as),
          map (\<lambda>a. if force \<or> confirmed (locators a)
                    then a\<lparr>locators := [l \<leftarrow> locators a. \<not> uses l \<le> 0]\<rparr> else a) as)"
  by (induction as) (auto simp: Action_clean_eq)

text \<open>
  C2, as amended.  \<open>Page_clean\<close> always returns.  With \<open>force\<close>, the actions all of
  whose locators have \<open>uses \<le> 0\<close> are removed, and the remaining actions keep their
  locators with \<open>uses > 0\<close>.  Without \<open>force\<close> no action is removed, whatever the
  scores: each action stays in its place, and loses its locators with \<open>uses \<le> 0\<close>
  when one of its own locators has \<open>uses \<ge> 99\<close>.
\<close>

theorem page_clean_actions:
  "\<exists>n p' w'. Page_clean p force w = Inr (n, p', w')
     \<and> actions p' =
         (if force
          then map (\<lambda>a. a\<lparr>locators := [l \<leftarrow> locators a. 0 < uses l]\<rparr>)
                 [a \<leftarrow> actions p. \<not> unused_action a]
          else map (\<lambda>a. if confirmed (locators a)
                         then a\<lparr>locators := [l \<leftarrow> locators a. 0 < uses l]\<rparr> else a)
                 (actions p))"
proof (cases force)
  case True
  have "(if filter unused_action (actions p) \<noteq> [] \<and> True
         then remove_each action_eq (actions p) (filter unused_action (actions p))
         else Inr (actions p)) = Inr [a \<leftarrow> actions p. \<not> unused_action a]"
  proof (cases "filter unused_action (actions p) = []")
    case True
    then have "[a \<leftarrow> actions p. \<not> unused_action a] = actions p"
      by (simp add: filter_empty_conv)
    with True show ?thesis by simp
  next
    case False
    then show ?thesis by (simp add: remove_unused_actions)
  qed
  with True show ?thesis
    by (simp add: Page_clean_def Locators_clean_eq clean_actions_eq Let_def not_le)
next
  case False
  then show ?thesis
    by (simp add: Page_clean_def Locators_clean_eq clean_actions_eq Let_def not_le)
qed

theorem page_clean_actions_witness:
  "\<exists>n p' w'. Page_clean example_page True example_world = Inr (n, p', w')
     \<and> actions p' = [confirmed_example\<lparr>locators := [example_locator 99]\<rparr>]"
  using page_clean_actions [of example_page True example_world]
  by (simp add: example_page_def unused_example_def confirmed_example_def example_locator_def
      unused_action_def)

text \<open>
  C2 as stated fails: without \<open>force\<close>, an action whose only locator has score 0
  stays on the page, although an inclusion of the page and a locator of another action
  have reached 99.
\<close>

theorem page_clean_keeps_unused_action:
  "unused_action unused_example
   \<and> confirmed (inclusions (page_locators example_page))
   \<and> confirmed (locators confirmed_example)
   \<and> Page_clean example_page False example_world =
       Inr (1,
            example_page\<lparr>actions :=
              [unused_example, confirmed_example\<lparr>locators := [example_locator 99]\<rparr>]\<rparr>,
            save (example_page\<lparr>actions :=
              [unused_example, confirmed_example\<lparr>locators := [example_locator 99]\<rparr>]\<rparr>)
              example_world)"
  by (simp add: Page_clean_def Locators_clean_eq clean_actions_eq Let_def unused_action_def
      confirmed_def example_page_def unused_example_def confirmed_example_def
      example_locator_def)

section \<open>Page identification stops at a missing inclusion\<close>

lemma save_frame [simp]:
  "document (save p w) = document w" "browser_url (save p w) = browser_url w"
  "prompted (save p w) = prompted w"
  by (simp_all add: save_def)

lemma set_inclusion_fields [simp]:
  "domain (set_inclusion p i l) = domain p" "path (set_inclusion p i l) = path p"
  "variant (set_inclusion p i l) = variant p" "actions (set_inclusion p i l) = actions p"
  "exclusions (page_locators (set_inclusion p i l)) = exclusions (page_locators p)"
  "inclusions (page_locators (set_inclusion p i l)) = (inclusions (page_locators p))[i := l]"
  by (simp_all add: set_inclusion_def)

lemma set_exclusion_fields [simp]:
  "domain (set_exclusion p i l) = domain p" "path (set_exclusion p i l) = path p"
  "variant (set_exclusion p i l) = variant p" "actions (set_exclusion p i l) = actions p"
  "inclusions (page_locators (set_exclusion p i l)) = inclusions (page_locators p)"
  "exclusions (page_locators (set_exclusion p i l)) = (exclusions (page_locators p))[i := l]"
  by (simp_all add: set_exclusion_def)

lemma score_up_uses: "uses (snd (score l 1)) = min 99 (max 1 (uses l + 1))"
  by (simp add: score_def Let_def)

lemma score_down_uses: "uses (snd (score l (- 1))) = max (- 1) (uses l - 1)"
  by (simp add: score_def Let_def)






section \<open>Dispatch falls back to the next locator\<close>

lemma perform_action_locators [simp]:
  "perform_action env (a\<lparr>locators := ls\<rparr>) function args wait w
     = perform_action env a function args wait w"
  by (simp add: perform_action_def split: prod.splits option.splits)

lemma try_locator_missing:
  "locator_bool l \<Longrightarrow> find (document w) l = Inr (None, l0) \<Longrightarrow>
   try_locator env a args wait l w = Inr (False, snd (score l (- 1)), w)"
  using find_None_same [of "document w" l l0] by (simp add: try_locator_def)

lemma try_locator_success:
  "locator_bool l \<Longrightarrow> find (document w) l = Inr (Some element, l1) \<Longrightarrow>
   getattr_element env element (verb a) = Inr function \<Longrightarrow>
   perform_action env a function args wait w = Inr (True, w') \<Longrightarrow>
   try_locator env a args wait l w = Inr (True, snd (score l1 1), w')"
  by (simp add: try_locator_def)

text \<open>
  C5.  Let the verb be an element verb (not the key verb), let the sorted locators start
  with the positions \<open>i\<close> and \<open>j\<close>, let the locator at \<open>i\<close> find no element, the one at
  \<open>j\<close> find one, and let the interaction with that element succeed.  Then
  \<open>trying_locators\<close> returns false (the dispatch succeeded) in the world the interaction
  left; the first locator has the score \<open>max (-1) (uses - 1)\<close>, which is \<open>uses - 1\<close>
  unless it was at the floor; the second has \<open>min 99 (max 1 (uses + 1))\<close>, which is
  \<open>uses + 1\<close> from 0 up to 98; and no other locator is touched.
\<close>

theorem dispatch_second_locator:
  assumes v: "Verb env (verb a) = Inr v" "\<not> is_type v"
    and order: "sorted_indices (locators a) = i # j # rest"
    and missing: "find (document w) (locators a ! i) = Inr (None, l0)"
    and found: "find (document w) (locators a ! j) = Inr (Some element, l1)"
    and callable: "getattr_element env element (verb a) = Inr function"
    and ok: "perform_action env a function args wait w = Inr (True, w')"
  shows "\<exists>a'. trying_locators env args wait a w = Inr (False, a', w')
     \<and> verb a' = verb a \<and> name a' = name a
     \<and> length (locators a') = length (locators a)
     \<and> uses (locators a' ! i) = max (- 1) (uses (locators a ! i) - 1)
     \<and> uses (locators a' ! j) = min 99 (max 1 (uses (locators a ! j) + 1))
     \<and> (- 1 < uses (locators a ! i) \<longrightarrow> uses (locators a' ! i) = uses (locators a ! i) - 1)
     \<and> (0 \<le> uses (locators a ! j) \<and> uses (locators a ! j) < 99 \<longrightarrow>
           uses (locators a' ! j) = uses (locators a ! j) + 1)
     \<and> (\<forall>m < length (locators a). m \<noteq> i \<and> m \<noteq> j \<longrightarrow> locators a' ! m = locators a ! m)"
proof -
  let ?L = "locators a"
  have ij: "i \<noteq> j"
    using sorted_indices_distinct [of ?L] order by simp
  have bi: "i < length ?L" "locator_bool (?L ! i)"
    using sorted_indices_bound [of i ?L] order by simp_all
  have bj: "j < length ?L" "locator_bool (?L ! j)"
    using sorted_indices_bound [of j ?L] order by simp_all
  define li where "li = snd (score (?L ! i) (- 1))"
  define lj where "lj = snd (score l1 1)"
  define a1 where "a1 = a\<lparr>locators := ?L[i := li]\<rparr>"
  define a2 where "a2 = a1\<lparr>locators := (locators a1)[j := lj]\<rparr>"
  have t1: "try_locator env a args wait (?L ! i) w = Inr (False, li, w)"
    using try_locator_missing [OF bi(2) missing] by (simp add: li_def)
  have j1: "locators a1 ! j = ?L ! j"
    using ij by (simp add: a1_def)
  have m1: "getattr_element env element (verb a1) = Inr function"
    using callable by (simp add: a1_def)
  have p1: "perform_action env a1 function args wait w = Inr (True, w')"
    using ok by (simp add: a1_def)
  have t2: "try_locator env a1 args wait (locators a1 ! j) w = Inr (True, lj, w')"
    unfolding j1 lj_def
    by (rule try_locator_success [OF bj(2) found m1 p1])
  have loop: "trying_loop env args wait (i # j # rest) a w = Inr (False, a2, w')"
    using t1 t2 by (simp add: a1_def a2_def)
  have run: "trying_locators env args wait a w = Inr (False, a2, w')"
    using v order loop by (simp add: trying_locators_def)
  have L2: "locators a2 = ?L[i := li, j := lj]"
    by (simp add: a2_def a1_def)
  have ui: "uses (locators a2 ! i) = max (- 1) (uses (?L ! i) - 1)"
    using ij bi by (simp add: L2 li_def score_down_uses)
  have uj: "uses (locators a2 ! j) = min 99 (max 1 (uses (?L ! j) + 1))"
    using bj find_fields [OF found] by (simp add: L2 lj_def score_up_uses)
  have "verb a2 = verb a" "name a2 = name a" "length (locators a2) = length ?L"
    by (simp_all add: a2_def a1_def)
  moreover have "\<forall>m < length ?L. m \<noteq> i \<and> m \<noteq> j \<longrightarrow> locators a2 ! m = ?L ! m"
    by (simp add: L2)
  moreover have "- 1 < uses (?L ! i) \<longrightarrow> uses (locators a2 ! i) = uses (?L ! i) - 1"
    using ui by simp
  moreover have "0 \<le> uses (?L ! j) \<and> uses (?L ! j) < 99 \<longrightarrow>
           uses (locators a2 ! j) = uses (?L ! j) + 1"
    using uj by simp
  ultimately show ?thesis
    using run ui uj by blast
qed

lemma click_login_order: "sorted_indices (locators click_login) = 0 # 1 # []"
  by (simp add: click_login_def sorted_indices_def descending_order_def locator_bool_def upt_rec)

theorem dispatch_second_locator_witness:
  "\<exists>a'. trying_locators example_env [] None click_login (login_world []) 
           = Inr (False, a', login_world [])
     \<and> map uses (locators click_login) = [5, 3]
     \<and> uses (locators a' ! 0) = 4 \<and> uses (locators a' ! 1) = 4
     \<and> length (locators a') = 2"
proof -
  have v: "Verb example_env (verb click_login) = Inr \<lparr>is_type = False, updates = False\<rparr>"
    "\<not> is_type \<lparr>is_type = False, updates = False\<rparr>"
    by (simp_all add: example_env_def click_login_def)
  have missing: "find (document (login_world [])) (locators click_login ! 0)
      = Inr (None, locators click_login ! 0)"
    by (simp add: login_world_def click_login_def find_def login_document_def getitem_def)
  have found: "find (document (login_world [])) (locators click_login ! 1)
      = Inr (Some \<lparr>visible = True, outer_html = ''<input>''\<rparr>, locators click_login ! 1)"
    by (simp add: login_world_def click_login_def find_def login_document_def getitem_def)
  have callable: "getattr_element example_env \<lparr>visible = True, outer_html = ''<input>''\<rparr>
      (verb click_login) = Inr (\<lambda>args w. (None, w))"
    by (simp add: example_env_def)
  have ok: "perform_action example_env click_login (\<lambda>args w. (None, w)) [] None (login_world [])
      = Inr (True, login_world [])"
    by (simp add: perform_action_def example_env_def click_login_def)
  from dispatch_second_locator [OF v click_login_order missing found callable ok]
  show ?thesis
    by (auto simp: click_login_def)
qed

section \<open>Registry disambiguation prefers exact pages\<close>

lemma active_inclusions_file:
  "active_inclusions is p w = Inr (b, p', w') \<Longrightarrow>
   domain p' = domain p \<and> path p' = path p \<and> variant p' = variant p"
proof (induction "is" arbitrary: p w)
  case Nil
  then show ?case by simp
next
  case (Cons i "is")
  show ?case
  proof (cases "find (document w) (inclusions (page_locators p) ! i)")
    case (Inl e)
    with Cons.prems show ?thesis by simp
  next
    case (Inr r)
    obtain found l where r: "r = (found, l)" by (cases r)
    show ?thesis
    proof (cases found)
      case None
      with Cons.prems Inr r show ?thesis by auto
    next
      case (Some element)
      obtain moved l' where sc: "score l 1 = (moved, l')" by (cases "score l 1")
      from Cons.prems Inr r Some sc
      have "active_inclusions is (set_inclusion p i l')
              (if moved then save (set_inclusion p i l') w else w) = Inr (b, p', w')"
        by (simp add: Let_def)
      from Cons.IH [OF this] show ?thesis by simp
    qed
  qed
qed

lemma active_exclusions_file:
  "active_exclusions is p w = Inr (b, p', w') \<Longrightarrow>
   domain p' = domain p \<and> path p' = path p \<and> variant p' = variant p"
proof (induction "is" arbitrary: p w)
  case Nil
  then show ?case by simp
next
  case (Cons i "is")
  show ?case
  proof (cases "find (document w) (exclusions (page_locators p) ! i)")
    case (Inl e)
    with Cons.prems show ?thesis by simp
  next
    case (Inr r)
    obtain found l where r: "r = (found, l)" by (cases r)
    show ?thesis
    proof (cases found)
      case None
      with Cons.prems Inr r
      have "active_exclusions is (set_exclusion p i l) w = Inr (b, p', w')" by simp
      from Cons.IH [OF this] show ?thesis by simp
    next
      case (Some element)
      obtain moved l' where sc: "score l 1 = (moved, l')" by (cases "score l 1")
      from Cons.prems Inr r Some sc show ?thesis
        by (auto simp: Let_def)
    qed
  qed
qed

lemma active_file:
  assumes "active env p w = Inr (b, p', w')"
  shows "domain p' = domain p \<and> path p' = path p \<and> variant p' = variant p"
proof (cases "url_ne env (domain p) (path p) (browser_url w)")
  case True
  with assms show ?thesis by (simp add: active_def)
next
  case False
  show ?thesis
  proof (cases "active_inclusions (sorted_indices (inclusions (page_locators p))) p w")
    case (Inl e)
    with assms False show ?thesis by (simp add: active_def)
  next
    case (Inr r)
    obtain b1 p1 w1 where r: "r = (b1, p1, w1)" by (cases r)
    have f1: "domain p1 = domain p \<and> path p1 = path p \<and> variant p1 = variant p"
      using active_inclusions_file Inr r by blast
    show ?thesis
    proof (cases b1)
      case True
      with assms False Inr r
      have "active_exclusions (sorted_indices (exclusions (page_locators p1))) p1 w1
              = Inr (b, p', w')"
        by (simp add: active_def)
      from active_exclusions_file [OF this] f1 show ?thesis by simp
    next
      case False
      with assms \<open>\<not> url_ne env (domain p) (path p) (browser_url w)\<close> Inr r f1
      show ?thesis by (simp add: active_def)
    qed
  qed
qed

lemma active_exact: "active env p w = Inr (b, p', w') \<Longrightarrow> exact p' = exact p"
  using active_file [of env p w b p' w'] by (simp add: exact_def)

lemma auto_scan_flag:
  "auto_scan env ps (ms0, fe0) w = Inr (ms, fe, w') \<Longrightarrow> fe = (fe0 \<or> list_ex exact ps)"
proof (induction ps arbitrary: ms0 fe0 w)
  case Nil
  then show ?case by simp
next
  case (Cons p ps)
  show ?case
  proof (cases "active env p w")
    case (Inl e)
    with Cons.prems show ?thesis by simp
  next
    case (Inr r)
    obtain b p1 w1 where r: "r = (b, p1, w1)" by (cases r)
    have ex: "exact p1 = exact p"
      using active_exact Inr r by blast
    from Cons.prems Inr r
    have "auto_scan env ps (if b then ms0 @ [p1] else ms0, if exact p1 then True else fe0) w1
            = Inr (ms, fe, w')"
      by simp
    from Cons.IH [OF this] ex show ?thesis by auto
  qed
qed

text \<open>
  C4.  When a page of the current domain is exact, active or not, the flag of the scan is
  set and \<open>auto\<close> chooses among the exact active matches only: it returns the first of
  them, and creates a page when there is none, also when templated pages matched.  In
  particular, when the pages of the domain are one exact and one templated page, in either
  order, and both are active, \<open>auto\<close> returns the exact one.
\<close>

theorem auto_prefers_exact:
  "(auto_scan env [p \<leftarrow> registry w. domain p = url_domain env (browser_url w)] ([], False) w
        = Inr (matches, flag, w1)
      \<and> list_ex exact [p \<leftarrow> registry w. domain p = url_domain env (browser_url w)]
    \<longrightarrow> flag
      \<and> auto env w =
          (case filter exact matches of
             m # ms \<Rightarrow> Inr (m, w1)
           | [] \<Rightarrow> (case Page_at env (browser_url w1) [] w1 of (p, w2) \<Rightarrow> Inr (p, save p w2))))
   \<and> ([p \<leftarrow> registry w. domain p = url_domain env (browser_url w)] = [pe, pt]
      \<and> exact pe \<and> \<not> exact pt
      \<and> active env pe w = Inr (True, pe', wa) \<and> active env pt wa = Inr (True, pt', wb)
    \<longrightarrow> auto env w = Inr (pe', wb) \<and> same_file pe' pe)
   \<and> ([p \<leftarrow> registry w. domain p = url_domain env (browser_url w)] = [qt, qe]
      \<and> exact qe \<and> \<not> exact qt
      \<and> active env qt w = Inr (True, qt', wc) \<and> active env qe wc = Inr (True, qe', wd)
    \<longrightarrow> auto env w = Inr (qe', wd) \<and> same_file qe' qe)"
proof (intro conjI impI)
  assume a: "auto_scan env [p \<leftarrow> registry w. domain p = url_domain env (browser_url w)]
        ([], False) w = Inr (matches, flag, w1)
      \<and> list_ex exact [p \<leftarrow> registry w. domain p = url_domain env (browser_url w)]"
  then show f: flag
    using auto_scan_flag by blast
  from a f show "auto env w =
          (case filter exact matches of
             m # ms \<Rightarrow> Inr (m, w1)
           | [] \<Rightarrow> (case Page_at env (browser_url w1) [] w1 of (p, w2) \<Rightarrow> Inr (p, save p w2)))"
    by (simp add: auto_def split: list.splits)
next
  assume a: "[p \<leftarrow> registry w. domain p = url_domain env (browser_url w)] = [pe, pt]
      \<and> exact pe \<and> \<not> exact pt
      \<and> active env pe w = Inr (True, pe', wa) \<and> active env pt wa = Inr (True, pt', wb)"
  then have e: "exact pe'" "\<not> exact pt'"
    using active_exact [of env pe w True pe' wa] active_exact [of env pt wa True pt' wb]
    by simp_all
  with a show "auto env w = Inr (pe', wb)"
    by (simp add: auto_def)
  from a show "same_file pe' pe"
    using active_file [of env pe w True pe' wa] by (simp add: same_file_def)
next
  assume a: "[p \<leftarrow> registry w. domain p = url_domain env (browser_url w)] = [qt, qe]
      \<and> exact qe \<and> \<not> exact qt
      \<and> active env qt w = Inr (True, qt', wc) \<and> active env qe wc = Inr (True, qe', wd)"
  then have e: "exact qe'" "\<not> exact qt'"
    using active_exact [of env qe wc True qe' wd] active_exact [of env qt w True qt' wc]
    by simp_all
  with a show "auto env w = Inr (qe', wd)"
    by (simp add: auto_def)
  from a show "same_file qe' qe"
    using active_file [of env qe wc True qe' wd] by (simp add: same_file_def)
qed

lemma template_page_active:
  "browser_url w = ''http://example.com/login'' \<Longrightarrow>
   active example_env template_page w = Inr (True, template_page, w)"
  by (simp add: active_def example_env_def template_page_def sorted_indices_def
      descending_order_def)

lemma exact_page_active:
  "browser_url w = ''http://example.com/login'' \<Longrightarrow> document w = login_document \<Longrightarrow>
   active example_env exact_page w =
     Inr (True,
          set_inclusion exact_page 0 (snd (score (inclusions (page_locators exact_page) ! 0) 1)),
          save (set_inclusion exact_page 0
                  (snd (score (inclusions (page_locators exact_page) ! 0) 1))) w)"
  by (simp add: active_def example_env_def exact_page_def sorted_indices_def
      descending_order_def locator_bool_def find_def login_document_def getitem_def
      score_def Let_def set_inclusion_def)

lemma login_page_inactive:
  "browser_url w = ''http://example.com/login'' \<Longrightarrow> document w = login_document \<Longrightarrow>
   active example_env login_page w =
     Inr (False,
          set_inclusion login_page 0 (snd (score (inclusions (page_locators login_page) ! 0) 1)),
          save (set_inclusion login_page 0
                  (snd (score (inclusions (page_locators login_page) ! 0) 1))) w)"
  by (simp add: active_def example_env_def login_page_def sorted_indices_def
      descending_order_def locator_bool_def find_def login_document_def getitem_def
      score_def Let_def set_inclusion_def upt_rec)

lemma login_world_fields [simp]:
  "browser_url (login_world ps) = ''http://example.com/login''"
  "document (login_world ps) = login_document"
  "registry (login_world ps) = ps"
  by (simp_all add: login_world_def)

lemma example_domain [simp]:
  "url_domain example_env u = ''example.com''"
  "domain login_page = ''example.com''" "domain exact_page = ''example.com''"
  "domain template_page = ''example.com''"
  by (simp_all add: example_env_def login_page_def exact_page_def template_page_def)

lemma exact_set_inclusion [simp]: "exact (set_inclusion p i l) = exact p"
  by (simp add: exact_def)

lemma example_exact [simp]:
  "exact login_page" "exact exact_page" "\<not> exact template_page"
  by (simp_all add: exact_def login_page_def exact_page_def template_page_def)

theorem auto_prefers_exact_witness:
  "(\<exists>p w'. auto example_env (login_world [login_page, template_page]) = Inr (p, w')
       \<and> same_file p login_page)
   \<and> (\<exists>p w'. auto example_env (login_world [exact_page, template_page]) = Inr (p, w')
       \<and> same_file p exact_page)
   \<and> (\<exists>p w'. auto example_env (login_world [template_page, exact_page]) = Inr (p, w')
       \<and> same_file p exact_page)"
proof (intro conjI)
  let ?l = "set_inclusion login_page 0 (snd (score (inclusions (page_locators login_page) ! 0) 1))"
  let ?e = "set_inclusion exact_page 0 (snd (score (inclusions (page_locators exact_page) ! 0) 1))"
  let ?w = "login_world [login_page, template_page]"
  have scan: "auto_scan example_env
      [p \<leftarrow> registry ?w. domain p = url_domain example_env (browser_url ?w)] ([], False) ?w
      = Inr ([template_page], True, save ?l ?w)"
    by (simp add: login_page_inactive template_page_active)
  have some: "list_ex exact
      [p \<leftarrow> registry ?w. domain p = url_domain example_env (browser_url ?w)]"
    by simp
  from auto_prefers_exact [of example_env ?w "[template_page]" True "save ?l ?w"] scan some
  have "auto example_env ?w =
      (case Page_at example_env (browser_url (save ?l ?w)) [] (save ?l ?w) of
         (p, w2) \<Rightarrow> Inr (p, save p w2))"
    by simp
  then show "\<exists>p w'. auto example_env ?w = Inr (p, w') \<and> same_file p login_page"
    by (simp add: Page_at_def Let_def load_if_exists_def default_page_def save_def
        same_file_def example_env_def login_page_def set_inclusion_def)
  let ?v = "login_world [exact_page, template_page]"
  have "auto example_env ?v = Inr (?e, save ?e ?v) \<and> same_file ?e exact_page"
    using auto_prefers_exact [of example_env ?v _ _ _ exact_page template_page
        ?e "save ?e ?v" template_page "save ?e ?v"]
    by (simp add: exact_page_active template_page_active)
  then show "\<exists>p w'. auto example_env ?v = Inr (p, w') \<and> same_file p exact_page"
    by blast
  let ?u = "login_world [template_page, exact_page]"
  have "auto example_env ?u = Inr (?e, save ?e ?u) \<and> same_file ?e exact_page"
    using auto_prefers_exact [of example_env ?u _ _ _ _ _ _ _ _ _ template_page exact_page
        template_page ?u ?e "save ?e ?u"]
    by (simp add: exact_page_active template_page_active)
  then show "\<exists>p w'. auto example_env ?u = Inr (p, w') \<and> same_file p exact_page"
    by blast
qed

section \<open>Interactive repair\<close>

lemma score_fields: "mode (snd (score l d)) = mode l \<and> value' (snd (score l d)) = value' l"
  by (simp add: score_def Let_def)

lemma try_locator_fields:
  "try_locator env a args wait l w = Inr (b, l', w') \<Longrightarrow> mode l' = mode l \<and> value' l' = value' l"
  unfolding try_locator_def
  by (auto simp: score_fields split: if_splits sum.splits option.splits bool.splits prod.splits
      dest: find_fields)

lemma map_update_same: "f v = f (xs ! i) \<Longrightarrow> map f (xs[i := v]) = map f xs"
proof (cases "i < length xs")
  case True
  assume "f v = f (xs ! i)"
  with True show ?thesis by (simp add: map_update list_update_same_conv)
next
  case False
  then show ?thesis by (simp add: list_update_beyond)
qed

lemma trying_loop_shape:
  "trying_loop env args wait is a w = Inr (b, a', w') \<Longrightarrow>
   verb a' = verb a \<and> name a' = name a
   \<and> map mode (locators a') = map mode (locators a)
   \<and> map value' (locators a') = map value' (locators a)"
proof (induction "is" arbitrary: a w)
  case Nil
  then show ?case by simp
next
  case (Cons i "is")
  show ?case
  proof (cases "try_locator env a args wait (locators a ! i) w")
    case (Inl e)
    with Cons.prems show ?thesis by simp
  next
    case (Inr r)
    obtain ok l w1 where r: "r = (ok, l, w1)" by (cases r)
    define a1 where "a1 = a\<lparr>locators := (locators a)[i := l]\<rparr>"
    have ml: "mode l = mode (locators a ! i)" "value' l = value' (locators a ! i)"
      using try_locator_fields Inr r by blast+
    have s1: "verb a1 = verb a \<and> name a1 = name a
        \<and> map mode (locators a1) = map mode (locators a)
        \<and> map value' (locators a1) = map value' (locators a)"
      using ml by (simp add: a1_def map_update_same)
    show ?thesis
    proof (cases ok)
      case True
      with Cons.prems Inr r have "a' = a1" by (simp add: a1_def)
      with s1 show ?thesis by simp
    next
      case False
      with Cons.prems Inr r have "trying_loop env args wait is a1 w1 = Inr (b, a', w')"
        by (simp add: a1_def)
      from Cons.IH [OF this] s1 show ?thesis by simp
    qed
  qed
qed

lemma trying_locators_shape:
  "trying_locators env args wait a w = Inr (b, a', w') \<Longrightarrow>
   verb a' = verb a \<and> name a' = name a
   \<and> map mode (locators a') = map mode (locators a)
   \<and> map value' (locators a') = map value' (locators a)"
  unfolding trying_locators_def
  by (auto split: sum.splits if_splits prod.splits dest: trying_loop_shape)

lemma trying_locators_failed_verb:
  "trying_locators env args wait a w = Inr (True, a', w') \<Longrightarrow>
   \<exists>v. Verb env (verb a) = Inr v \<and> \<not> is_type v"
  unfolding trying_locators_def
  by (auto split: sum.splits if_splits prod.splits)

text \<open>
  C8, as amended.  Let every candidate fail (\<open>trying_locators\<close> returns true; it never
  changes the number, the modes or the values of the locators).  When the operator
  supplies no mode, the loop ends, without an exception, with the action as the failed
  attempt left it: no locator is appended.  \<open>call_method\<close> then goes on to the same
  return statements as after a successful dispatch (\<open>return_page\<close>, the last conjunct
  being the successful case): the verb is a known one, the page passed in is returned when
  there is one and the verb updates in place, and otherwise the result is that of
  \<open>auto\<close>, its page or the exception it raises.  When the operator supplies a mode, the
  locator with that mode and value, index 0 and score 0 is appended and the loop runs
  again.
\<close>

theorem call_method_declined:
  assumes failed: "trying_locators env args wait a w = Inr (True, a', w')"
  shows "verb a' = verb a \<and> name a' = name a
     \<and> map mode (locators a') = map mode (locators a)
     \<and> map value' (locators a') = map value' (locators a)
     \<and> (fst (mode_and_value env (prompted w')) = [] \<longrightarrow>
           call_method_loop env args wait a w
             = Some (Inr (a', w'\<lparr>prompted := Suc (prompted w')\<rparr>))
           \<and> call_method env page0 args wait a w
             = Some (return_page env page0 a' (w'\<lparr>prompted := Suc (prompted w')\<rparr>))
           \<and> (\<exists>v. Verb env (verb a') = Inr v
                \<and> call_method env page0 args wait a w
                  = Some (case page0 of
                            Some page1 \<Rightarrow>
                              if updates v
                              then Inr (page1, a', w'\<lparr>prompted := Suc (prompted w')\<rparr>)
                              else (case auto env (w'\<lparr>prompted := Suc (prompted w')\<rparr>) of
                                      Inl e \<Rightarrow> Inl e
                                    | Inr (p, w3) \<Rightarrow> Inr (p, a', w3))
                          | None \<Rightarrow>
                              (case auto env (w'\<lparr>prompted := Suc (prompted w')\<rparr>) of
                                 Inl e \<Rightarrow> Inl e
                               | Inr (p, w3) \<Rightarrow> Inr (p, a', w3)))))
     \<and> (fst (mode_and_value env (prompted w')) \<noteq> [] \<longrightarrow>
           call_method_loop env args wait a w
             = call_method_loop env args wait
                 (a'\<lparr>locators := locators a'
                     @ [\<lparr>mode = fst (mode_and_value env (prompted w')),
                          value' = snd (mode_and_value env (prompted w')),
                          index = 0, uses = 0\<rparr>]\<rparr>)
                 (w'\<lparr>prompted := Suc (prompted w')\<rparr>))
     \<and> (\<forall>b v b' v'. trying_locators env args wait b v = Inr (False, b', v') \<longrightarrow>
           call_method env page0 args wait b v = Some (return_page env page0 b' v'))"
proof (intro conjI impI allI)
  from trying_locators_shape [OF failed]
  show "verb a' = verb a" "name a' = name a"
    "map mode (locators a') = map mode (locators a)"
    "map value' (locators a') = map value' (locators a)"
    by simp_all
next
  assume "fst (mode_and_value env (prompted w')) = []"
  then obtain v where d: "mode_and_value env (prompted w') = ([], v)"
    by (cases "mode_and_value env (prompted w')") simp
  show l: "call_method_loop env args wait a w
             = Some (Inr (a', w'\<lparr>prompted := Suc (prompted w')\<rparr>))"
    by (subst call_method_loop.simps) (simp add: failed d)
  show c: "call_method env page0 args wait a w
             = Some (return_page env page0 a' (w'\<lparr>prompted := Suc (prompted w')\<rparr>))"
    by (simp add: call_method_def l)
  from trying_locators_failed_verb [OF failed] trying_locators_shape [OF failed]
  obtain vi where vi: "Verb env (verb a') = Inr vi"
    by auto
  have "call_method env page0 args wait a w
                  = Some (case page0 of
                            Some page1 \<Rightarrow>
                              if updates vi
                              then Inr (page1, a', w'\<lparr>prompted := Suc (prompted w')\<rparr>)
                              else (case auto env (w'\<lparr>prompted := Suc (prompted w')\<rparr>) of
                                      Inl e \<Rightarrow> Inl e
                                    | Inr (p, w3) \<Rightarrow> Inr (p, a', w3))
                          | None \<Rightarrow>
                              (case auto env (w'\<lparr>prompted := Suc (prompted w')\<rparr>) of
                                 Inl e \<Rightarrow> Inl e
                               | Inr (p, w3) \<Rightarrow> Inr (p, a', w3)))"
    by (simp add: c return_page_def vi split: option.splits)
  with vi show "\<exists>v. Verb env (verb a') = Inr v
                \<and> call_method env page0 args wait a w
                  = Some (case page0 of
                            Some page1 \<Rightarrow>
                              if updates v
                              then Inr (page1, a', w'\<lparr>prompted := Suc (prompted w')\<rparr>)
                              else (case auto env (w'\<lparr>prompted := Suc (prompted w')\<rparr>) of
                                      Inl e \<Rightarrow> Inl e
                                    | Inr (p, w3) \<Rightarrow> Inr (p, a', w3))
                          | None \<Rightarrow>
                              (case auto env (w'\<lparr>prompted := Suc (prompted w')\<rparr>) of
                                 Inl e \<Rightarrow> Inl e
                               | Inr (p, w3) \<Rightarrow> Inr (p, a', w3)))"
    by blast
next
  assume s: "fst (mode_and_value env (prompted w')) \<noteq> []"
  obtain m v where mv: "mode_and_value env (prompted w') = (m, v)"
    by (cases "mode_and_value env (prompted w')")
  with s have "m \<noteq> []" by simp
  with mv show "call_method_loop env args wait a w
             = call_method_loop env args wait
                 (a'\<lparr>locators := locators a'
                     @ [\<lparr>mode = fst (mode_and_value env (prompted w')),
                          value' = snd (mode_and_value env (prompted w')),
                          index = 0, uses = 0\<rparr>]\<rparr>)
                 (w'\<lparr>prompted := Suc (prompted w')\<rparr>)"
    by (subst call_method_loop.simps) (simp add: failed Locator_def)
next
  fix b v b' v'
  assume ok: "trying_locators env args wait b v = Inr (False, b', v')"
  have "call_method_loop env args wait b v = Some (Inr (b', v'))"
    by (subst call_method_loop.simps) (simp add: ok)
  then show "call_method env page0 args wait b v = Some (return_page env page0 b' v')"
    by (simp add: call_method_def)
qed

lemma fill_email_fails:
  "trying_locators example_env [''alice''] None fill_email (login_world ps)
     = Inr (True,
            fill_email\<lparr>locators := [\<lparr>mode = ''id'', value' = ''email'', index = 0, uses = - 1\<rparr>]\<rparr>,
            login_world ps)"
  by (simp add: trying_locators_def example_env_def fill_email_def sorted_indices_def
      descending_order_def locator_bool_def try_locator_def find_def login_document_def
      getitem_def score_def Let_def)

lemma fill_email_fails_repairing:
  "trying_locators repairing_env [''alice''] None fill_email (login_world ps)
     = Inr (True,
            fill_email\<lparr>locators := [\<lparr>mode = ''id'', value' = ''email'', index = 0, uses = - 1\<rparr>]\<rparr>,
            login_world ps)"
  by (simp add: trying_locators_def repairing_env_def example_env_def fill_email_def
      sorted_indices_def descending_order_def locator_bool_def try_locator_def find_def
      login_document_def getitem_def score_def Let_def)

lemma fill_username_succeeds:
  "trying_locators example_env [''alice''] None fill_username (login_world ps)
     = Inr (False,
            fill_username\<lparr>locators := [\<lparr>mode = ''id'', value' = ''username'', index = 0, uses = 1\<rparr>]\<rparr>,
            login_world ps)"
  by (simp add: trying_locators_def example_env_def fill_username_def sorted_indices_def
      descending_order_def locator_bool_def try_locator_def find_def login_document_def
      getitem_def score_def Let_def perform_action_def)

lemma repaired_fill_succeeds:
  "trying_locators repairing_env [''alice''] None
     (fill_email\<lparr>locators := [\<lparr>mode = ''id'', value' = ''email'', index = 0, uses = - 1\<rparr>,
                               \<lparr>mode = ''id'', value' = ''username'', index = 0, uses = 0\<rparr>]\<rparr>)
     ((login_world ps)\<lparr>prompted := Suc 0\<rparr>)
     = Inr (False,
            fill_email\<lparr>locators := [\<lparr>mode = ''id'', value' = ''email'', index = 0, uses = - 1\<rparr>,
                                      \<lparr>mode = ''id'', value' = ''username'', index = 0, uses = 1\<rparr>]\<rparr>,
            (login_world ps)\<lparr>prompted := Suc 0\<rparr>)"
  by (simp add: trying_locators_def repairing_env_def example_env_def fill_email_def
      sorted_indices_def descending_order_def locator_bool_def try_locator_def find_def
      login_document_def getitem_def score_def Let_def perform_action_def login_world_def
      upt_rec)

lemma auto_exact_and_template:
  "browser_url w = ''http://example.com/login'' \<Longrightarrow> document w = login_document \<Longrightarrow>
   registry w = [exact_page, template_page] \<Longrightarrow>
   auto example_env w =
     Inr (set_inclusion exact_page 0 (snd (score (inclusions (page_locators exact_page) ! 0) 1)),
          save (set_inclusion exact_page 0
                  (snd (score (inclusions (page_locators exact_page) ! 0) 1))) w)"
  by (simp add: auto_def exact_page_active template_page_active)

theorem call_method_declined_witness:
  "call_method_loop example_env [''alice''] None fill_email (login_world [])
     = Some (Inr (fill_email\<lparr>locators :=
                    [\<lparr>mode = ''id'', value' = ''email'', index = 0, uses = - 1\<rparr>]\<rparr>,
                  (login_world [])\<lparr>prompted := Suc 0\<rparr>))
   \<and> call_method example_env (Some exact_page) [''alice''] None fill_email (login_world [])
     = Some (Inr (exact_page,
                  fill_email\<lparr>locators :=
                    [\<lparr>mode = ''id'', value' = ''email'', index = 0, uses = - 1\<rparr>]\<rparr>,
                  (login_world [])\<lparr>prompted := Suc 0\<rparr>))
   \<and> (\<exists>p w3. call_method example_env None [''alice''] None fill_email
                 (login_world [exact_page, template_page])
        = Some (Inr (p,
                     fill_email\<lparr>locators :=
                       [\<lparr>mode = ''id'', value' = ''email'', index = 0, uses = - 1\<rparr>]\<rparr>,
                     w3))
        \<and> same_file p exact_page)
   \<and> call_method_loop repairing_env [''alice''] None fill_email (login_world [])
     = Some (Inr (fill_email\<lparr>locators :=
                    [\<lparr>mode = ''id'', value' = ''email'', index = 0, uses = - 1\<rparr>,
                     \<lparr>mode = ''id'', value' = ''username'', index = 0, uses = 1\<rparr>]\<rparr>,
                  (login_world [])\<lparr>prompted := Suc 0\<rparr>))"
proof (intro conjI)
  note declined = call_method_declined [OF fill_email_fails [of "[]"], of "Some exact_page"]
  have none: "fst (mode_and_value example_env (prompted (login_world ps))) = []" for ps
    by (simp add: example_env_def)
  from declined none [of "[]"]
  show "call_method_loop example_env [''alice''] None fill_email (login_world [])
     = Some (Inr (fill_email\<lparr>locators :=
                    [\<lparr>mode = ''id'', value' = ''email'', index = 0, uses = - 1\<rparr>]\<rparr>,
                  (login_world [])\<lparr>prompted := Suc 0\<rparr>))"
    by (simp add: login_world_def)
  from declined none [of "[]"]
  show "call_method example_env (Some exact_page) [''alice''] None fill_email (login_world [])
     = Some (Inr (exact_page,
                  fill_email\<lparr>locators :=
                    [\<lparr>mode = ''id'', value' = ''email'', index = 0, uses = - 1\<rparr>]\<rparr>,
                  (login_world [])\<lparr>prompted := Suc 0\<rparr>))"
    by (simp add: login_world_def return_page_def example_env_def fill_email_def)
  note identified = call_method_declined
    [OF fill_email_fails [of "[exact_page, template_page]"], of None]
  from identified none [of "[exact_page, template_page]"]
  have "call_method example_env None [''alice''] None fill_email
          (login_world [exact_page, template_page])
        = Some (return_page example_env None
                  (fill_email\<lparr>locators :=
                     [\<lparr>mode = ''id'', value' = ''email'', index = 0, uses = - 1\<rparr>]\<rparr>)
                  ((login_world [exact_page, template_page])\<lparr>prompted := Suc 0\<rparr>))"
    by (simp add: login_world_def)
  then show "\<exists>p w3. call_method example_env None [''alice''] None fill_email
                 (login_world [exact_page, template_page])
        = Some (Inr (p,
                     fill_email\<lparr>locators :=
                       [\<lparr>mode = ''id'', value' = ''email'', index = 0, uses = - 1\<rparr>]\<rparr>,
                     w3))
        \<and> same_file p exact_page"
    by (simp add: return_page_def auto_exact_and_template login_world_def same_file_def)
  note repaired = call_method_declined [OF fill_email_fails_repairing [of "[]"], of None]
  have some: "mode_and_value repairing_env (prompted (login_world [])) = (''id'', ''username'')"
    by (simp add: repairing_env_def login_world_def)
  have again: "call_method_loop repairing_env [''alice''] None
     (fill_email\<lparr>locators := [\<lparr>mode = ''id'', value' = ''email'', index = 0, uses = - 1\<rparr>,
                               \<lparr>mode = ''id'', value' = ''username'', index = 0, uses = 0\<rparr>]\<rparr>)
     ((login_world [])\<lparr>prompted := Suc 0\<rparr>)
     = Some (Inr (fill_email\<lparr>locators :=
                    [\<lparr>mode = ''id'', value' = ''email'', index = 0, uses = - 1\<rparr>,
                     \<lparr>mode = ''id'', value' = ''username'', index = 0, uses = 1\<rparr>]\<rparr>,
                  (login_world [])\<lparr>prompted := Suc 0\<rparr>))"
    by (subst call_method_loop.simps) (simp add: repaired_fill_succeeds)
  from repaired some again
  show "call_method_loop repairing_env [''alice''] None fill_email (login_world [])
     = Some (Inr (fill_email\<lparr>locators :=
                    [\<lparr>mode = ''id'', value' = ''email'', index = 0, uses = - 1\<rparr>,
                     \<lparr>mode = ''id'', value' = ''username'', index = 0, uses = 1\<rparr>]\<rparr>,
                  (login_world [])\<lparr>prompted := Suc 0\<rparr>))"
    by (simp add: login_world_def)
qed

text \<open>
  C8 as stated fails: nothing reports the dispatch as unresolved.  For a fill of the value
  \<^verbatim>\<open>alice\<close> whose only locator fails, with the operator declining, the caller of
  \<open>call_method\<close> receives the page that was passed in, as it does for a fill of the same
  value that succeeds.
\<close>

theorem call_method_no_unresolved_result:
  "trying_locators example_env [''alice''] None fill_email (login_world [])
     = Inr (True,
            fill_email\<lparr>locators := [\<lparr>mode = ''id'', value' = ''email'', index = 0, uses = - 1\<rparr>]\<rparr>,
            login_world [])
   \<and> fst (mode_and_value example_env 0) = []
   \<and> map_option (map_sum id fst)
        (call_method example_env (Some exact_page) [''alice''] None fill_email (login_world []))
       = Some (Inr exact_page)
   \<and> trying_locators example_env [''alice''] None fill_username (login_world [])
     = Inr (False,
            fill_username\<lparr>locators := [\<lparr>mode = ''id'', value' = ''username'', index = 0, uses = 1\<rparr>]\<rparr>,
            login_world [])
   \<and> map_option (map_sum id fst)
        (call_method example_env (Some exact_page) [''alice''] None fill_username (login_world []))
       = Some (Inr exact_page)"
proof (intro conjI)
  show "trying_locators example_env [''alice''] None fill_email (login_world [])
     = Inr (True,
            fill_email\<lparr>locators := [\<lparr>mode = ''id'', value' = ''email'', index = 0, uses = - 1\<rparr>]\<rparr>,
            login_world [])"
    by (rule fill_email_fails)
  show "fst (mode_and_value example_env 0) = []"
    by (simp add: example_env_def)
  have "call_method_loop example_env [''alice''] None fill_email (login_world [])
     = Some (Inr (fill_email\<lparr>locators :=
                    [\<lparr>mode = ''id'', value' = ''email'', index = 0, uses = - 1\<rparr>]\<rparr>,
                  (login_world [])\<lparr>prompted := Suc 0\<rparr>))"
    by (subst call_method_loop.simps)
      (simp add: fill_email_fails, simp add: example_env_def login_world_def)
  then show "map_option (map_sum id fst)
        (call_method example_env (Some exact_page) [''alice''] None fill_email (login_world []))
       = Some (Inr exact_page)"
    by (simp add: call_method_def return_page_def example_env_def fill_email_def)
  show "trying_locators example_env [''alice''] None fill_username (login_world [])
     = Inr (False,
            fill_username\<lparr>locators := [\<lparr>mode = ''id'', value' = ''username'', index = 0, uses = 1\<rparr>]\<rparr>,
            login_world [])"
    by (rule fill_username_succeeds)
  have "call_method_loop example_env [''alice''] None fill_username (login_world [])
     = Some (Inr (fill_username\<lparr>locators :=
                    [\<lparr>mode = ''id'', value' = ''username'', index = 0, uses = 1\<rparr>]\<rparr>,
                  login_world []))"
    by (subst call_method_loop.simps) (simp add: fill_username_succeeds)
  then show "map_option (map_sum id fst)
        (call_method example_env (Some exact_page) [''alice''] None fill_username (login_world []))
       = Some (Inr exact_page)"
    by (simp add: call_method_def return_page_def example_env_def fill_username_def)
qed

end
